theory Spec2Isabelle
  imports Main
begin

section \<open>Strings\<close>

text \<open>
  A JavaScript string is a sequence of UTF-16 code units. A code unit is modelled as a
  natural number (below 65536), a string as the list of its code units; \<open>js\<close> turns an ASCII
  literal into the string of its character codes. Kinds, MIME types, status values,
  messages, identifiers and storage keys are only compared and concatenated by the program;
  they stay HOL strings.
\<close>

type_synonym code_unit = nat

type_synonym jstring = "code_unit list"

definition js :: "string \<Rightarrow> jstring" where
  "js s = map of_char s"

text \<open>
  The regular-expression class \<^verbatim>\<open>\s\<close> and \<^verbatim>\<open>String.prototype.trim\<close> recognise the same
  code units, ECMAScript's WhiteSpace and LineTerminator: tab, line feed, vertical tab, form
  feed, carriage return, space, no-break space, U+1680, U+2000 to U+200A, the line and
  paragraph separators U+2028 and U+2029, U+202F, U+205F, U+3000 and U+FEFF.
\<close>

definition is_ws :: "code_unit \<Rightarrow> bool" where
  "is_ws c =
     (c \<in> set [0x09, 0x0A, 0x0B, 0x0C, 0x0D, 0x20, 0xA0, 0x1680, 0x2028, 0x2029, 0x202F,
                0x205F, 0x3000, 0xFEFF]
      \<or> (0x2000 \<le> c \<and> c \<le> 0x200A))"

text \<open>\<^verbatim>\<open>s.replace(/\s+/g, ' ')\<close>: every maximal run of whitespace becomes one space (32).\<close>

function replace_ws :: "jstring \<Rightarrow> jstring" where
  "replace_ws [] = []"
| "replace_ws (c # cs) =
     (if is_ws c then 32 # replace_ws (dropWhile is_ws cs) else c # replace_ws cs)"
  by pat_completeness auto
termination
  by (relation "measure length") (auto simp: le_imp_less_Suc length_dropWhile_le)

text \<open>\<^verbatim>\<open>s.trim()\<close>\<close>

definition trim :: "jstring \<Rightarrow> jstring" where
  "trim s = rev (dropWhile is_ws (rev (dropWhile is_ws s)))"

text \<open>
  \<^verbatim>\<open>s.match(/[.!?]$/)\<close>: the last code unit is a full stop (46), an exclamation mark (33)
  or a question mark (63).
\<close>

definition is_terminal :: "code_unit \<Rightarrow> bool" where
  "is_terminal c = (c = 46 \<or> c = 33 \<or> c = 63)"

definition ends_terminal :: "jstring \<Rightarrow> bool" where
  "ends_terminal s = (s \<noteq> [] \<and> is_terminal (last s))"

text \<open>
  \<^verbatim>\<open>toUpperCase\<close> of a string of one code unit. On ASCII it maps \<^verbatim>\<open>a-z\<close> to \<^verbatim>\<open>A-Z\<close> and
  leaves the rest. Beyond ASCII the result is read from the engine's Unicode case mapping,
  which is no part of the sources and is taken as the parameter \<open>U\<close>: a string of one or
  more code units (U+00E9 gives U+00C9, U+00DF gives \<^verbatim>\<open>SS\<close>, a lone surrogate gives itself).
  The program applies \<^verbatim>\<open>toUpperCase\<close> only to \<^verbatim>\<open>charAt(0)\<close>, a string of at most one code
  unit.
\<close>

definition to_upper :: "(code_unit \<Rightarrow> jstring) \<Rightarrow> code_unit \<Rightarrow> jstring" where
  "to_upper U c =
     (if c < 128 then (if 97 \<le> c \<and> c \<le> 122 then [c - 32] else [c]) else U c)"

definition toUpperCase :: "(code_unit \<Rightarrow> jstring) \<Rightarrow> jstring \<Rightarrow> jstring" where
  "toUpperCase U s = concat (map (to_upper U) s)"

text \<open>\<^verbatim>\<open>s.charAt(0)\<close> is the empty string on the empty string; \<^verbatim>\<open>s.slice(1)\<close> likewise.\<close>

definition charAt0 :: "jstring \<Rightarrow> jstring" where
  "charAt0 s = take 1 s"

definition slice1 :: "jstring \<Rightarrow> jstring" where
  "slice1 s = drop 1 s"

section \<open>TranscriptionService: the pure part\<close>

text \<open>\<open>formatTranscript\<close>; its first argument is the case mapping beyond ASCII.\<close>

definition formatTranscript :: "(code_unit \<Rightarrow> jstring) \<Rightarrow> jstring \<Rightarrow> jstring" where
  "formatTranscript U transcript =
     (if transcript = [] then []
      else
        let formatted = trim (replace_ws transcript);
            formatted = (if formatted \<noteq> [] \<and> \<not> ends_terminal formatted
                         then formatted @ [46] else formatted)
        in toUpperCase U (charAt0 formatted) @ slice1 formatted)"

text \<open>
  \<^verbatim>\<open>s.lastIndexOf(c)\<close> for a \<open>c\<close> of one code unit: the greatest index holding \<open>c\<close>, and
  \<open>-1\<close> when there is none.
\<close>

fun lastIndexOf :: "jstring \<Rightarrow> code_unit \<Rightarrow> int" where
  "lastIndexOf [] c = -1"
| "lastIndexOf (x # xs) c =
     (let r = lastIndexOf xs c in
      if 0 \<le> r then r + 1 else if x = c then 0 else -1)"

text \<open>
  \<^verbatim>\<open>maxLength * 0.7\<close> is a product of IEEE-754 doubles. The literal \<^verbatim>\<open>0.7\<close> denotes
  the double \<open>6305039478318694 / 2^53\<close>; the product of it with the integer \<open>maxLength\<close>
  is rounded to 53 significant bits, ties to even. \<open>times_0_7 n\<close> is that double as a pair
  \<open>(m, e)\<close> standing for \<open>m * 2^e / 2^53\<close>. The length bound is a natural number; it is
  below \<open>2^53\<close>, as the length of every string is, so a double holds it exactly.
\<close>

fun bitlen :: "nat \<Rightarrow> nat" where
  "bitlen n = (if n = 0 then 0 else Suc (bitlen (n div 2)))"

declare bitlen.simps [simp del]

definition round53 :: "nat \<Rightarrow> nat \<times> nat" where
  "round53 p =
     (let e = bitlen p - 53;
          q = p div 2 ^ e;
          r = p mod 2 ^ e
      in if 2 * r > 2 ^ e \<or> (2 * r = 2 ^ e \<and> odd q) then (q + 1, e) else (q, e))"

definition times_0_7 :: "nat \<Rightarrow> nat \<times> nat" where
  "times_0_7 n = round53 (n * 6305039478318694)"

text \<open>\<^verbatim>\<open>i > maxLength * 0.7\<close> for an integer \<open>i\<close>.\<close>

definition gt_times_0_7 :: "int \<Rightarrow> nat \<Rightarrow> bool" where
  "gt_times_0_7 i n = (case times_0_7 n of (m, e) \<Rightarrow> i * 2 ^ 53 > int (m * 2 ^ e))"

definition generateSummary :: "jstring \<Rightarrow> nat \<Rightarrow> jstring" where
  "generateSummary transcript maxLength =
     (if transcript = [] then []
      else if length transcript \<le> maxLength then transcript
      else
        let truncated = take maxLength transcript;
            lastSentenceEnd = max (max (lastIndexOf truncated 46)
                                       (lastIndexOf truncated 33))
                                  (lastIndexOf truncated 63)
        in if gt_times_0_7 lastSentenceEnd maxLength
           then take (nat (lastSentenceEnd + 1)) truncated
           else truncated @ js ''...'')"

section \<open>Promises\<close>

text \<open>
  The state of a promise. \<open>resolve\<close> and \<open>reject\<close> settle a pending promise and do
  nothing to a settled one. A promise that is still \<open>Pending\<close> when no event is left never
  settles, and an \<^verbatim>\<open>await\<close> on it never continues.
\<close>

datatype 'a promise = Pending | Resolved 'a | Rejected string

definition resolve :: "'a \<Rightarrow> 'a promise \<Rightarrow> 'a promise" where
  "resolve v p = (case p of Pending \<Rightarrow> Resolved v | _ \<Rightarrow> p)"

definition reject :: "string \<Rightarrow> 'a promise \<Rightarrow> 'a promise" where
  "reject e p = (case p of Pending \<Rightarrow> Rejected e | _ \<Rightarrow> p)"

section \<open>The collaborators\<close>

record File =
  f_name :: jstring
  f_type :: string
  f_size :: nat

record lecture_file =
  lecture_id :: string
  file_name :: jstring
  file_type :: string
  file_size :: nat
  file_path :: string
  mime_type :: string
  duration :: "nat option"
  is_primary :: bool
  transcript :: "jstring option"
  transcript_status :: string

datatype call =
    StorageUpload string
  | StorageRemove string
  | DbInsert lecture_file
  | CallTranscribeAudio
  | CallExternalService

text \<open>
  The world an upload runs in: the bucket \<^verbatim>\<open>lecture-files\<close> (key to object), the table
  \<^verbatim>\<open>lecture_files\<close> (generated id and row, in insertion order), the calls made so far,
  and the number of \<^verbatim>\<open>isSupported()\<close> queries answered so far.
\<close>

record world =
  blobs :: "string \<rightharpoonup> File"
  rows :: "(string \<times> lecture_file) list"
  calls :: "call list"
  queries :: nat

text \<open>Events of the media element probed by \<^verbatim>\<open>getMediaDuration\<close>; the duration is floored.\<close>

datatype media_event = LoadedMetadata nat | MediaError

text \<open>
  Events delivered while \<^verbatim>\<open>transcribeAudio\<close> runs: those of the audio element, the
  one-second timer, and those of the recognizer. \<open>RecResult i rs\<close> is a result event with
  \<^verbatim>\<open>resultIndex = i\<close> and results \<open>rs\<close>, each given by its \<^verbatim>\<open>isFinal\<close> flag and the
  transcript of its first alternative.
\<close>

datatype sr_event =
    AudioLoadedData
  | AudioEnded
  | TimerFired
  | AudioError
  | RecResult nat "(bool \<times> jstring) list"
  | RecEnd
  | RecError string

text \<open>
  What the surroundings answer during one run: the clock, the engine's case mapping beyond
  ASCII, the answer to the \<open>n\<close>-th \<^verbatim>\<open>isSupported()\<close> query, the events of the two media
  sessions, and the replies of the blob store and the database (\<open>None\<close> or \<open>Inr\<close>: success;
  \<open>Some msg\<close> or \<open>Inl msg\<close>: the \<^verbatim>\<open>error\<close> field of the reply).
\<close>

record env =
  now :: nat
  upper_beyond :: "code_unit \<Rightarrow> jstring"
  supported :: "nat \<Rightarrow> bool"
  sr_events :: "sr_event list"
  media_events :: "media_event list"
  upload_reply :: "string option"
  insert_reply :: "string + string"
  remove_reply :: "string option"

text \<open>
  Modelled from the spec: the blob store and the metadata database (the Supabase client
  \<^verbatim>\<open>@/integrations/supabase/client\<close> is not among the sources). Each call answers with a
  reply object whose \<^verbatim>\<open>error\<close> field tells success from failure. \<open>put\<close> does not
  overwrite an existing key (upsert is disabled); a failed call leaves the store or the table
  as it was; a successful \<open>delete\<close> removes the key; a successful insert adds the row under
  a generated id.
\<close>

definition storage_upload :: "env \<Rightarrow> string \<Rightarrow> File \<Rightarrow> world \<Rightarrow> string option \<times> world" where
  "storage_upload env key file w =
     (let w' = w\<lparr>calls := calls w @ [StorageUpload key]\<rparr> in
      case upload_reply env of
        Some msg \<Rightarrow> (Some msg, w')
      | None \<Rightarrow>
          if blobs w key \<noteq> None then (Some ''The resource already exists'', w')
          else (None, w'\<lparr>blobs := (blobs w)(key \<mapsto> file)\<rparr>))"

definition storage_remove :: "env \<Rightarrow> string \<Rightarrow> world \<Rightarrow> string option \<times> world" where
  "storage_remove env key w =
     (let w' = w\<lparr>calls := calls w @ [StorageRemove key]\<rparr> in
      case remove_reply env of
        Some msg \<Rightarrow> (Some msg, w')
      | None \<Rightarrow> (None, w'\<lparr>blobs := (blobs w)(key := None)\<rparr>))"

definition db_insert :: "env \<Rightarrow> lecture_file \<Rightarrow> world \<Rightarrow> (string + string) \<times> world" where
  "db_insert env r w =
     (let w' = w\<lparr>calls := calls w @ [DbInsert r]\<rparr> in
      case insert_reply env of
        Inl msg \<Rightarrow> (Inl msg, w')
      | Inr i \<Rightarrow> (Inr i, w'\<lparr>rows := rows w @ [(i, r)]\<rparr>))"

section \<open>TranscriptionService: the engine\<close>

definition isSupported :: "env \<Rightarrow> world \<Rightarrow> bool \<times> world" where
  "isSupported env w = (supported env (queries w), w\<lparr>queries := Suc (queries w)\<rparr>)"

text \<open>
  The variables the handlers of \<^verbatim>\<open>transcribeAudio\<close> and \<^verbatim>\<open>playAudioForRecognition\<close>
  share: the accumulated transcript, the promise \<^verbatim>\<open>transcribeAudio\<close> returns (\<open>outer\<close>),
  the promise \<^verbatim>\<open>playAudioForRecognition\<close> returns (\<open>inner\<close>), whether the recognizer was
  started and stopped, and the number of timers set and not yet fired.
\<close>

record sr_state =
  acc :: jstring
  outer :: "jstring promise"
  inner :: "unit promise"
  rec_started :: bool
  rec_stopped :: bool
  timers :: nat

definition sr_init :: sr_state where
  "sr_init = \<lparr>acc = [], outer = Pending, inner = Pending,
              rec_started = False, rec_stopped = False, timers = 0\<rparr>"

text \<open>The \<^verbatim>\<open>onresult\<close> loop: every final result from \<^verbatim>\<open>resultIndex\<close> on is appended.\<close>

definition final_text :: "nat \<Rightarrow> (bool \<times> jstring) list \<Rightarrow> jstring" where
  "final_text i rs = concat (map (\<lambda>(fin, t). if fin then t @ [32] else []) (drop i rs))"

fun sr_step :: "sr_state \<Rightarrow> sr_event \<Rightarrow> sr_state" where
  "sr_step s AudioLoadedData = s\<lparr>rec_started := True\<rparr>"
| "sr_step s AudioEnded = s\<lparr>timers := Suc (timers s)\<rparr>"
| "sr_step s TimerFired =
     (if timers s = 0 then s
      else s\<lparr>timers := timers s - 1, rec_stopped := True, inner := resolve () (inner s)\<rparr>)"
| "sr_step s AudioError = s\<lparr>inner := reject ''Failed to load audio file'' (inner s)\<rparr>"
| "sr_step s (RecResult i rs) = s\<lparr>acc := acc s @ final_text i rs\<rparr>"
| "sr_step s RecEnd = s\<lparr>outer := resolve (trim (acc s)) (outer s)\<rparr>"
| "sr_step s (RecError code) =
     s\<lparr>outer := reject (''Speech recognition error: '' @ code) (outer s)\<rparr>"

definition sr_run :: "sr_event list \<Rightarrow> sr_state" where
  "sr_run evs = foldl sr_step sr_init evs"

text \<open>
  \<^verbatim>\<open>transcribeAudio\<close>: the promise it returns after the events of the run. The promise of
  \<^verbatim>\<open>playAudioForRecognition\<close> is dropped by the caller (no \<^verbatim>\<open>await\<close>, no handler).
\<close>

definition transcribeAudio :: "env \<Rightarrow> File \<Rightarrow> world \<Rightarrow> jstring promise \<times> world" where
  "transcribeAudio env audioFile w =
     (let (sup, w1) = isSupported env (w\<lparr>calls := calls w @ [CallTranscribeAudio]\<rparr>) in
      if \<not> sup then (Rejected ''Speech recognition not supported in this browser'', w1)
      else (outer (sr_run (sr_events env)), w1))"

definition mockTranscript :: "jstring \<Rightarrow> jstring" where
  "mockTranscript n =
     js ''This is a mock transcription of the audio file '' @ [34] @ n @ [34] @ js ''. '' @ [10] @
     js ''        In a real implementation, this would be replaced with actual speech-to-text conversion '' @ [10] @
     js ''        using an external service. The audio content would be processed and converted to text '' @ [10] @
     js ''        with high accuracy, including punctuation and proper formatting.''"

definition transcribeWithExternalService :: "File \<Rightarrow> world \<Rightarrow> jstring promise \<times> world" where
  "transcribeWithExternalService audioFile w =
     (Resolved (mockTranscript (f_name audioFile)), w\<lparr>calls := calls w @ [CallExternalService]\<rparr>)"

text \<open>
  \<^verbatim>\<open>transcribe\<close>: the \<^verbatim>\<open>try\<close> block takes one path; the \<^verbatim>\<open>catch\<close> block runs when
  the awaited promise is rejected, whichever path it came from.
\<close>

definition transcribe :: "env \<Rightarrow> File \<Rightarrow> bool \<Rightarrow> world \<Rightarrow> jstring promise \<times> world" where
  "transcribe env audioFile useExternal w =
     (let (attempt, w2) =
            (if useExternal then transcribeWithExternalService audioFile w
             else
               let (sup, w1) = isSupported env w in
               if \<not> sup then transcribeWithExternalService audioFile w1
               else transcribeAudio env audioFile w1)
      in case attempt of
           Rejected e \<Rightarrow>
             (let (sup, w3) = isSupported env w2 in
              if sup then transcribeWithExternalService audioFile w3
              else (Rejected e, w3))
         | _ \<Rightarrow> (attempt, w2))"

section \<open>FileUploadService\<close>

definition MAX_FILE_SIZE :: nat where
  "MAX_FILE_SIZE = 100 * 1024 * 1024"

definition ALLOWED_TYPES :: "(string \<times> string list) list" where
  "ALLOWED_TYPES =
     [(''audio'', [''audio/mpeg'', ''audio/wav'', ''audio/mp3'', ''audio/webm'', ''audio/ogg'']),
      (''pdf'', [''application/pdf'']),
      (''presentation'',
         [''application/vnd.ms-powerpoint'',
          ''application/vnd.openxmlformats-officedocument.presentationml.presentation'']),
      (''document'',
         [''application/msword'',
          ''application/vnd.openxmlformats-officedocument.wordprocessingml.document'']),
      (''video'', [''video/mp4'', ''video/webm'', ''video/ogg''])]"

text \<open>The loop of \<^verbatim>\<open>getFileType\<close> over the entries, in their order.\<close>

fun getFileType_in :: "(string \<times> string list) list \<Rightarrow> string \<Rightarrow> string option" where
  "getFileType_in [] mimeType = None"
| "getFileType_in ((ty, mimeTypes) # rest) mimeType =
     (if mimeType \<in> set mimeTypes then Some ty else getFileType_in rest mimeType)"

definition getFileType :: "string \<Rightarrow> string option" where
  "getFileType mimeType = getFileType_in ALLOWED_TYPES mimeType"

record validation =
  valid :: bool
  v_error :: "string option"

definition validateFile :: "File \<Rightarrow> validation" where
  "validateFile file =
     (if f_size file > MAX_FILE_SIZE
      then \<lparr>valid = False, v_error = Some ''File size must be less than 100MB''\<rparr>
      else
        case getFileType (f_type file) of
          None \<Rightarrow>
            \<lparr>valid = False,
             v_error = Some ''Unsupported file type. Please upload audio, PDF, PowerPoint, or Word documents.''\<rparr>
        | Some fileType \<Rightarrow> \<lparr>valid = True, v_error = None\<rparr>)"

text \<open>The decimal numeral of the timestamp, as the template literal prints it.\<close>

fun digits :: "nat \<Rightarrow> string" where
  "digits n =
     (if n < 10 then [char_of (48 + n)] else digits (n div 10) @ [char_of (48 + n mod 10)])"

text \<open>
  \<^verbatim>\<open>fileName.replace(/[^a-zA-Z0-9.-]/g, '_')\<close>: a code unit that is an ASCII letter, a digit,
  a full stop (46) or a hyphen (45) is kept; any other becomes an underscore.
\<close>

definition keeps :: "code_unit \<Rightarrow> bool" where
  "keeps c =
     ((97 \<le> c \<and> c \<le> 122) \<or> (65 \<le> c \<and> c \<le> 90) \<or> (48 \<le> c \<and> c \<le> 57)
      \<or> c = 46 \<or> c = 45)"

definition sanitize :: "jstring \<Rightarrow> string" where
  "sanitize fileName = map (\<lambda>c. if keeps c then char_of c else CHR ''_'') fileName"

definition generateFilePath :: "nat \<Rightarrow> string \<Rightarrow> jstring \<Rightarrow> string" where
  "generateFilePath timestamp lectureId fileName =
     ''lectures/'' @ lectureId @ ''/'' @ digits timestamp @ ''_'' @ sanitize fileName"

text \<open>\<^verbatim>\<open>getMediaDuration\<close>: the first event settles the promise.\<close>

fun media_step :: "nat promise \<Rightarrow> media_event \<Rightarrow> nat promise" where
  "media_step p (LoadedMetadata d) = resolve d p"
| "media_step p MediaError = reject ''Could not load media file'' p"

definition getMediaDuration :: "env \<Rightarrow> File \<Rightarrow> nat promise" where
  "getMediaDuration env file = foldl media_step Pending (media_events env)"

record FileUploadResult =
  success :: bool
  filePath :: "string option"
  error :: "string option"
  fileId :: "string option"

definition failure :: "string option \<Rightarrow> FileUploadResult" where
  "failure msg = \<lparr>success = False, filePath = None, error = msg, fileId = None\<rparr>"

text \<open>
  The duration step: \<open>None\<close> when the awaited probe never settles, else the value of
  \<^verbatim>\<open>metadata.duration\<close> (unset when the kind is neither audio nor video or the probe is
  rejected).
\<close>

definition duration_step :: "env \<Rightarrow> File \<Rightarrow> string option \<Rightarrow> nat option option" where
  "duration_step env file fileType =
     (if fileType = Some ''audio'' \<or> fileType = Some ''video'' then
        (case getMediaDuration env file of
           Resolved d \<Rightarrow> Some (Some d)
         | Rejected e \<Rightarrow> Some None
         | Pending \<Rightarrow> None)
      else Some None)"

text \<open>The two local variables of the transcription step.\<close>

record tvars =
  t_transcript :: "jstring option"
  t_status :: string

text \<open>
  The transcription step: \<open>None\<close> when the awaited \<^verbatim>\<open>transcribe\<close> never settles, else
  the two variables as the insert will read them.
\<close>

definition transcription_step ::
    "env \<Rightarrow> File \<Rightarrow> bool \<Rightarrow> string option \<Rightarrow> world \<Rightarrow> tvars option \<times> world" where
  "transcription_step env file enableTranscription fileType w =
     (let v0 = \<lparr>t_transcript = None, t_status = ''pending''\<rparr> in
      if enableTranscription \<and> fileType = Some ''audio'' then
        (let v1 = v0\<lparr>t_status := ''processing''\<rparr>;
             (p, w') = transcribe env file False w
         in case p of
              Resolved t \<Rightarrow>
                (Some (v1\<lparr>t_transcript := Some (formatTranscript (upper_beyond env) t),
                           t_status := ''completed''\<rparr>), w')
            | Rejected e \<Rightarrow> (Some (v1\<lparr>t_status := ''failed''\<rparr>), w')
            | Pending \<Rightarrow> (None, w'))
      else (Some v0, w))"

text \<open>
  \<^verbatim>\<open>uploadFile\<close>; the result is \<open>None\<close> when the function never returns. The parameter
  \<^verbatim>\<open>onProgress\<close> is not used by the body. With replies that are objects and the two inner
  handlers, no statement of the body throws, so the outer handler has no branch here.
\<close>

definition uploadFile ::
    "env \<Rightarrow> File \<Rightarrow> string \<Rightarrow> bool \<Rightarrow> bool \<Rightarrow> world \<Rightarrow> FileUploadResult option \<times> world" where
  "uploadFile env file lectureId isPrimary enableTranscription w =
     (let validation = validateFile file in
      if \<not> valid validation then (Some (failure (v_error validation)), w)
      else
        let path = generateFilePath (now env) lectureId (f_name file);
            (upErr, w1) = storage_upload env path file w
        in case upErr of
             Some msg \<Rightarrow> (Some (failure (Some msg)), w1)
           | None \<Rightarrow>
               let fileType = getFileType (f_type file) in
               (case duration_step env file fileType of
                  None \<Rightarrow> (None, w1)
                | Some dur \<Rightarrow>
                    (case transcription_step env file enableTranscription fileType w1 of
                       (None, w2) \<Rightarrow> (None, w2)
                     | (Some v, w2) \<Rightarrow>
                         let (ins, w3) =
                               db_insert env
                                 \<lparr>lecture_id = lectureId,
                                  file_name = f_name file,
                                  file_type = (case fileType of Some ty \<Rightarrow> ty | None \<Rightarrow> ''unknown''),
                                  file_size = f_size file,
                                  file_path = path,
                                  mime_type = f_type file,
                                  duration = dur,
                                  is_primary = isPrimary,
                                  transcript = t_transcript v,
                                  transcript_status = t_status v\<rparr> w2
                         in case ins of
                              Inl msg \<Rightarrow>
                                (let (rm, w4) = storage_remove env path w3
                                 in (Some (failure (Some msg)), w4))
                            | Inr fid \<Rightarrow>
                                (Some \<lparr>success = True, filePath = Some path,
                                       error = None, fileId = Some fid\<rparr>, w3))))"

section \<open>The specification's reading of the formatter\<close>

text \<open>
  The words of a text are its maximal runs of code units that are not whitespace.
  Collapsing every run of whitespace to one space and trimming both ends leaves the words
  joined by single spaces.
\<close>

function ws_words :: "jstring \<Rightarrow> jstring list" where
  "ws_words [] = []"
| "ws_words (c # cs) =
     (if is_ws c then ws_words cs
      else (c # takeWhile (\<lambda>x. \<not> is_ws x) cs) # ws_words (dropWhile (\<lambda>x. \<not> is_ws x) cs))"
  by pat_completeness auto
termination
  by (relation "measure length") (auto simp: le_imp_less_Suc length_dropWhile_le)

fun unwords :: "jstring list \<Rightarrow> jstring" where
  "unwords [] = []"
| "unwords [w] = w"
| "unwords (w # v # vs) = w @ 32 # unwords (v # vs)"

definition capitalize :: "(code_unit \<Rightarrow> jstring) \<Rightarrow> jstring \<Rightarrow> jstring" where
  "capitalize U s = (case s of [] \<Rightarrow> [] | c # cs \<Rightarrow> to_upper U c @ cs)"

text \<open>
  \<open>format\<close> as the specification words it: collapse and trim; append a period exactly when
  the result is non-empty and has no terminal mark; capitalise the first code unit.
\<close>

definition format_spec :: "(code_unit \<Rightarrow> jstring) \<Rightarrow> jstring \<Rightarrow> jstring" where
  "format_spec U text =
     (let t = unwords (ws_words text) in
      if t = [] then [] else capitalize U (if is_terminal (last t) then t else t @ [46]))"

definition trim_end :: "jstring \<Rightarrow> jstring" where
  "trim_end s = rev (dropWhile is_ws (rev s))"

text \<open>The allow-list of MIME types: all the lists of \<open>ALLOWED_TYPES\<close>.\<close>

definition allowed_mime_types :: "string list" where
  "allowed_mime_types = concat (map snd ALLOWED_TYPES)"

text \<open>The value \<open>m * 2^e\<close> of a rounded product, still scaled by \<open>2^53\<close>.\<close>

definition scaled :: "nat \<times> nat \<Rightarrow> nat" where
  "scaled v = fst v * 2 ^ snd v"

text \<open>The variable \<^verbatim>\<open>lastSentenceEnd\<close> of \<open>generateSummary\<close>, as a function of the prefix.\<close>

definition lastSentenceEnd :: "jstring \<Rightarrow> int" where
  "lastSentenceEnd s = max (max (lastIndexOf s 46) (lastIndexOf s 33)) (lastIndexOf s 63)"

text \<open>
  A text of 104 code units (63 times \<^verbatim>\<open>a\<close>, a full stop, 40 times \<^verbatim>\<open>b\<close>) whose only
  terminal mark is at index 63, which is exactly seven tenths of 90.
\<close>

definition tie_text :: jstring where
  "tie_text = replicate 63 97 @ [46] @ replicate 40 98"

section \<open>What a run adds, and sample runs\<close>

text \<open>The calls, and the rows, that a run from world \<open>w\<close> to world \<open>w'\<close> added.\<close>

definition new_calls :: "world \<Rightarrow> world \<Rightarrow> call list" where
  "new_calls w w' = drop (length (calls w)) (calls w')"

definition new_rows :: "world \<Rightarrow> world \<Rightarrow> (string \<times> lecture_file) list" where
  "new_rows w w' = drop (length (rows w)) (rows w')"

text \<open>A five-megabyte recording, a two-megabyte slide deck, and an empty world.\<close>

definition lecture_webm :: File where
  "lecture_webm = \<lparr>f_name = js ''lecture.webm'', f_type = ''audio/webm'', f_size = 5242880\<rparr>"

definition slides_pdf :: File where
  "slides_pdf = \<lparr>f_name = js ''slides.pdf'', f_type = ''application/pdf'', f_size = 2097152\<rparr>"

definition big_webm :: File where
  "big_webm = \<lparr>f_name = js ''lecture.webm'', f_type = ''audio/webm'', f_size = 157286400\<rparr>"

definition world0 :: world where
  "world0 = \<lparr>blobs = Map.empty, rows = [], calls = [], queries = 0\<rparr>"

text \<open>
  A sample of the case mapping beyond ASCII: U+00E9 to U+00C9, U+00DF to \<^verbatim>\<open>SS\<close>, anything
  else to itself.
\<close>

definition upper_sample :: "code_unit \<Rightarrow> jstring" where
  "upper_sample c = (if c = 0xE9 then [0xC9] else if c = 0xDF then [0x53, 0x53] else [c])"

text \<open>
  A browser with speech recognition in which everything succeeds: the recognizer hears two
  final results.
\<close>

definition env_ok :: env where
  "env_ok =
     \<lparr>now = 1730000000000,
      upper_beyond = upper_sample,
      supported = (\<lambda>n. True),
      sr_events = [AudioLoadedData, RecResult 0 [(True, js ''hello world'')],
                   RecResult 1 [(True, js ''hello world''), (True, js ''again'')],
                   AudioEnded, TimerFired, RecEnd],
      media_events = [LoadedMetadata 12],
      upload_reply = None,
      insert_reply = Inr ''id-1'',
      remove_reply = None\<rparr>"

text \<open>The same browser: the recording is silent, the recognizer ends with no result.\<close>

definition env_silent :: env where
  "env_silent = env_ok\<lparr>sr_events := [AudioLoadedData, AudioEnded, TimerFired, RecEnd]\<rparr>"

text \<open>The recognizer reports the error \<^verbatim>\<open>no-speech\<close>, then ends.\<close>

definition env_rec_error :: env where
  "env_rec_error = env_ok\<lparr>sr_events := [AudioLoadedData, RecError ''no-speech'', RecEnd]\<rparr>"

text \<open>
  The file cannot be decoded: the media element of the duration probe and the audio
  element of the transcription both fire \<^verbatim>\<open>error\<close> and nothing else.
\<close>

definition env_media_error :: env where
  "env_media_error = env_ok\<lparr>sr_events := [AudioError], media_events := [MediaError]\<rparr>"

text \<open>A browser without speech recognition.\<close>

definition env_unsupported :: env where
  "env_unsupported = env_ok\<lparr>supported := (\<lambda>n. False)\<rparr>"

text \<open>The blob store refuses the write; the database refuses the insert; both the insert
  and the compensating delete fail.\<close>

definition env_upload_fails :: env where
  "env_upload_fails = env_ok\<lparr>upload_reply := Some ''Bucket not found''\<rparr>"

definition env_insert_fails :: env where
  "env_insert_fails = env_ok\<lparr>insert_reply := Inl ''new row violates row-level security policy''\<rparr>"

definition env_insert_remove_fail :: env where
  "env_insert_remove_fail = env_insert_fails\<lparr>remove_reply := Some ''Gateway Timeout''\<rparr>"


text \<open>The storage key of an upload, and the row its insert sends.\<close>

definition upload_path :: "env \<Rightarrow> File \<Rightarrow> string \<Rightarrow> string" where
  "upload_path env file lectureId = generateFilePath (now env) lectureId (f_name file)"

definition upload_row ::
    "env \<Rightarrow> File \<Rightarrow> string \<Rightarrow> bool \<Rightarrow> nat option \<Rightarrow> tvars \<Rightarrow> lecture_file" where
  "upload_row env file lectureId isPrimary dur v =
     \<lparr>lecture_id = lectureId,
      file_name = f_name file,
      file_type = (case getFileType (f_type file) of Some ty \<Rightarrow> ty | None \<Rightarrow> ''unknown''),
      file_size = f_size file,
      file_path = upload_path env file lectureId,
      mime_type = f_type file,
      duration = dur,
      is_primary = isPrimary,
      transcript = t_transcript v,
      transcript_status = t_status v\<rparr>"

text \<open>The calls that are inserts.\<close>

fun is_insert :: "call \<Rightarrow> bool" where
  "is_insert (DbInsert r) = True"
| "is_insert c = False"

text \<open>The recognizer reports an error, and the capability is gone when the handler asks.\<close>

definition env_failed :: env where
  "env_failed = env_rec_error\<lparr>supported := (\<lambda>n. n < 2)\<rparr>"

section \<open>Literals\<close>

lemma length_js [simp]: "length (js s) = length s"
  by (simp add: js_def)

lemmas text_defs =
  js_def trim_def is_ws_def ends_terminal_def is_terminal_def toUpperCase_def to_upper_def
  charAt0_def slice1_def formatTranscript_def

section \<open>Validation\<close>

lemma getFileType_in_None_iff:
  "getFileType_in tys m = None \<longleftrightarrow> m \<notin> set (concat (map snd tys))"
  by (induction tys m rule: getFileType_in.induct) auto

lemma getFileType_in_Some_fst:
  "getFileType_in tys m = Some k \<Longrightarrow> k \<in> set (map fst tys)"
  by (induction tys m rule: getFileType_in.induct) (auto split: if_splits)

lemma getFileType_None_iff: "getFileType m = None \<longleftrightarrow> m \<notin> set allowed_mime_types"
  by (simp add: getFileType_def allowed_mime_types_def getFileType_in_None_iff)

lemma valid_validateFile_iff:
  "valid (validateFile file) \<longleftrightarrow>
     f_size file \<le> MAX_FILE_SIZE \<and> getFileType (f_type file) \<noteq> None"
  by (auto simp: validateFile_def split: option.splits)

lemma allowed_mime_types_eq:
  "set allowed_mime_types =
     {''audio/mpeg'', ''audio/wav'', ''audio/mp3'', ''audio/webm'', ''audio/ogg'',
      ''application/pdf'',
      ''application/vnd.ms-powerpoint'',
      ''application/vnd.openxmlformats-officedocument.presentationml.presentation'',
      ''application/msword'',
      ''application/vnd.openxmlformats-officedocument.wordprocessingml.document'',
      ''video/mp4'', ''video/webm'', ''video/ogg''}"
  by (simp add: allowed_mime_types_def ALLOWED_TYPES_def)

text \<open>
  C2. \<open>validateFile\<close> accepts a file exactly when its size is at most 100 MiB
  (104857600 bytes) and its declared MIME type is one of the thirteen of the allow-list;
  a rejected file comes with a non-empty error message; the kind of an allowed type is one
  of audio, pdf, presentation, document, video, each type with the kind of its list.
\<close>

theorem validateFile_accepts_iff:
  "(valid (validateFile file) \<longleftrightarrow>
      f_size file \<le> 104857600 \<and>
      f_type file \<in>
        {''audio/mpeg'', ''audio/wav'', ''audio/mp3'', ''audio/webm'', ''audio/ogg'',
         ''application/pdf'',
         ''application/vnd.ms-powerpoint'',
         ''application/vnd.openxmlformats-officedocument.presentationml.presentation'',
         ''application/msword'',
         ''application/vnd.openxmlformats-officedocument.wordprocessingml.document'',
         ''video/mp4'', ''video/webm'', ''video/ogg''}) \<and>
   (\<not> valid (validateFile file) \<longrightarrow>
      (\<exists>msg. v_error (validateFile file) = Some msg \<and> msg \<noteq> [])) \<and>
   (\<forall>k. getFileType (f_type file) = Some k \<longrightarrow>
        k \<in> {''audio'', ''pdf'', ''presentation'', ''document'', ''video''}) \<and>
   getFileType ''audio/mpeg'' = Some ''audio'' \<and>
   getFileType ''audio/wav'' = Some ''audio'' \<and>
   getFileType ''audio/mp3'' = Some ''audio'' \<and>
   getFileType ''audio/webm'' = Some ''audio'' \<and>
   getFileType ''audio/ogg'' = Some ''audio'' \<and>
   getFileType ''application/pdf'' = Some ''pdf'' \<and>
   getFileType ''application/vnd.ms-powerpoint'' = Some ''presentation'' \<and>
   getFileType ''application/vnd.openxmlformats-officedocument.presentationml.presentation'' =
     Some ''presentation'' \<and>
   getFileType ''application/msword'' = Some ''document'' \<and>
   getFileType ''application/vnd.openxmlformats-officedocument.wordprocessingml.document'' =
     Some ''document'' \<and>
   getFileType ''video/mp4'' = Some ''video'' \<and>
   getFileType ''video/webm'' = Some ''video'' \<and>
   getFileType ''video/ogg'' = Some ''video''"
proof (intro conjI allI impI)
  show "valid (validateFile file) \<longleftrightarrow>
      f_size file \<le> 104857600 \<and>
      f_type file \<in>
        {''audio/mpeg'', ''audio/wav'', ''audio/mp3'', ''audio/webm'', ''audio/ogg'',
         ''application/pdf'',
         ''application/vnd.ms-powerpoint'',
         ''application/vnd.openxmlformats-officedocument.presentationml.presentation'',
         ''application/msword'',
         ''application/vnd.openxmlformats-officedocument.wordprocessingml.document'',
         ''video/mp4'', ''video/webm'', ''video/ogg''}"
    unfolding valid_validateFile_iff getFileType_None_iff allowed_mime_types_eq
    by (simp add: MAX_FILE_SIZE_def)
next
  assume "\<not> valid (validateFile file)"
  then show "\<exists>msg. v_error (validateFile file) = Some msg \<and> msg \<noteq> []"
    by (auto simp: validateFile_def split: option.splits if_splits)
next
  fix k assume "getFileType (f_type file) = Some k"
  then have "k \<in> set (map fst ALLOWED_TYPES)"
    unfolding getFileType_def by (rule getFileType_in_Some_fst)
  then show "k \<in> {''audio'', ''pdf'', ''presentation'', ''document'', ''video''}"
    by (simp add: ALLOWED_TYPES_def)
qed (simp_all add: getFileType_def ALLOWED_TYPES_def)

theorem validateFile_accepts_iff_witness:
  "valid (validateFile \<lparr>f_name = js ''lecture.webm'', f_type = ''audio/webm'', f_size = 5242880\<rparr>) \<and>
   \<not> valid (validateFile \<lparr>f_name = js ''lecture.webm'', f_type = ''audio/webm'', f_size = 157286400\<rparr>) \<and>
   \<not> valid (validateFile \<lparr>f_name = js ''a.zip'', f_type = ''application/zip'', f_size = 1\<rparr>)"
  using validateFile_accepts_iff [of "\<lparr>f_name = js ''lecture.webm'', f_type = ''audio/webm'', f_size = 5242880\<rparr>"]
        validateFile_accepts_iff [of "\<lparr>f_name = js ''lecture.webm'', f_type = ''audio/webm'', f_size = 157286400\<rparr>"]
        validateFile_accepts_iff [of "\<lparr>f_name = js ''a.zip'', f_type = ''application/zip'', f_size = 1\<rparr>"]
  by simp

text \<open>
  C9, as stated, fails: a file of an unknown MIME type and a size within bounds is
  rejected, and a file that is accepted has a known MIME type.
\<close>

theorem validateFile_unknown_type_counterexample:
  "getFileType ''application/zip'' = None \<and> (1::nat) \<le> MAX_FILE_SIZE \<and>
   \<not> valid (validateFile \<lparr>f_name = js ''a.zip'', f_type = ''application/zip'', f_size = 1\<rparr>) \<and>
   getFileType ''audio/webm'' \<noteq> None \<and>
   valid (validateFile \<lparr>f_name = js ''lecture.webm'', f_type = ''audio/webm'', f_size = 5242880\<rparr>)"
  by (simp add: validateFile_def getFileType_def ALLOWED_TYPES_def MAX_FILE_SIZE_def)

text \<open>
  C9, amended. A known MIME type (one \<open>getFileType\<close> maps to a kind) together with a size
  within bounds is necessary and sufficient for acceptance; a file of an unknown MIME type
  is never accepted.
\<close>

theorem validateFile_known_type_iff:
  "(valid (validateFile file) \<longleftrightarrow>
      getFileType (f_type file) \<noteq> None \<and> f_size file \<le> MAX_FILE_SIZE) \<and>
   (getFileType (f_type file) = None \<longrightarrow> \<not> valid (validateFile file))"
  by (auto simp: validateFile_def split: option.splits)

theorem validateFile_known_type_iff_witness:
  "valid (validateFile \<lparr>f_name = js ''slides.pdf'', f_type = ''application/pdf'', f_size = 2097152\<rparr>) \<and>
   \<not> valid (validateFile \<lparr>f_name = js ''a.zip'', f_type = ''application/zip'', f_size = 1\<rparr>)"
  using validateFile_known_type_iff [of "\<lparr>f_name = js ''slides.pdf'', f_type = ''application/pdf'', f_size = 2097152\<rparr>"]
        validateFile_known_type_iff [of "\<lparr>f_name = js ''a.zip'', f_type = ''application/zip'', f_size = 1\<rparr>"]
  by (simp add: getFileType_def ALLOWED_TYPES_def MAX_FILE_SIZE_def)

section \<open>The formatter\<close>

lemma is_ws_space [simp]: "is_ws 32"
  by (simp add: is_ws_def)

lemma trim_eq: "trim s = trim_end (dropWhile is_ws s)"
  by (simp add: trim_def trim_end_def)

lemma replace_ws_nonws:
  "\<forall>x\<in>set w. \<not> is_ws x \<Longrightarrow> replace_ws (w @ r) = w @ replace_ws r"
  by (induction w) auto

lemma trim_end_append:
  "trim_end (xs @ ys) = (if \<forall>y\<in>set ys. is_ws y then trim_end xs else xs @ trim_end ys)"
  by (simp add: trim_end_def dropWhile_append)

lemma trim_end_keep: "w \<noteq> [] \<Longrightarrow> \<not> is_ws (last w) \<Longrightarrow> trim_end w = w"
  by (cases w rule: rev_cases) (auto simp: trim_end_def)

lemma dropWhile_head: "dropWhile P xs = y # ys \<Longrightarrow> \<not> P y"
  by (simp add: dropWhile_eq_Cons_conv)

lemma dropWhile_hd_or_nil: "dropWhile P xs = [] \<or> \<not> P (hd (dropWhile P xs))"
  by (induction xs) auto

lemma dropWhile_replace_ws_id:
  "r = [] \<or> \<not> is_ws (hd r) \<Longrightarrow> dropWhile is_ws (replace_ws r) = replace_ws r"
  by (cases r) auto

lemma ws_words_dropWhile: "ws_words (dropWhile is_ws s) = ws_words s"
  by (induction s) auto

lemma replace_ws_dropWhile:
  "dropWhile is_ws (replace_ws s) = replace_ws (dropWhile is_ws s)"
proof (cases s)
  case Nil
  then show ?thesis by simp
next
  case (Cons c cs)
  show ?thesis
  proof (cases "is_ws c")
    case False
    with Cons show ?thesis by simp
  next
    case True
    have "dropWhile is_ws (replace_ws (dropWhile is_ws cs)) = replace_ws (dropWhile is_ws cs)"
      by (rule dropWhile_replace_ws_id) (rule dropWhile_hd_or_nil)
    with True Cons show ?thesis by simp
  qed
qed

text \<open>
  On a text that does not start with whitespace: the first word is copied, and what
  follows it is either nothing, or whitespace only, or whitespace and a text the induction
  hypothesis applies to.
\<close>

lemma trim_end_replace_ws:
  "s = [] \<or> \<not> is_ws (hd s) \<Longrightarrow> trim_end (replace_ws s) = unwords (ws_words s)"
proof (induction s rule: length_induct)
  case (1 s)
  show ?case
  proof (cases s)
    case Nil
    then show ?thesis by (simp add: trim_end_def)
  next
    case (Cons c cs)
    with "1.prems" have c: "\<not> is_ws c" by simp
    define w where "w = c # takeWhile (\<lambda>x. \<not> is_ws x) cs"
    define rest where "rest = dropWhile (\<lambda>x. \<not> is_ws x) cs"
    have s: "s = w @ rest" by (simp add: Cons w_def rest_def)
    have wn: "\<forall>x\<in>set w. \<not> is_ws x"
      using c by (auto simp: w_def dest: set_takeWhileD)
    have wl: "w \<noteq> []" "\<not> is_ws (last w)"
      using wn by (auto simp: w_def)
    have rw: "replace_ws s = w @ replace_ws rest"
      unfolding s using wn by (rule replace_ws_nonws)
    have ww: "ws_words s = w # ws_words rest"
      using c by (simp add: Cons w_def rest_def)
    show ?thesis
    proof (cases rest)
      case Nil
      with rw ww wl show ?thesis by (simp add: trim_end_keep)
    next
      case (Cons d ds)
      have d: "is_ws d"
        using dropWhile_head [of "\<lambda>x. \<not> is_ws x" cs d ds] Cons by (simp add: rest_def)
      define r2 where "r2 = dropWhile is_ws ds"
      have r2h: "r2 = [] \<or> \<not> is_ws (hd r2)"
        unfolding r2_def by (rule dropWhile_hd_or_nil)
      have "length r2 \<le> length ds" by (simp add: r2_def length_dropWhile_le)
      then have "length r2 < length s" by (simp add: s Cons)
      with "1.IH" r2h have IH: "trim_end (replace_ws r2) = unwords (ws_words r2)" by blast
      have rr: "replace_ws rest = 32 # replace_ws r2"
        using d by (simp add: Cons r2_def)
      have wr: "ws_words rest = ws_words r2"
        using d ws_words_dropWhile [of ds] by (simp add: Cons r2_def)
      show ?thesis
      proof (cases r2)
        case Nil
        have "trim_end (w @ [32]) = w"
          using wl by (simp add: trim_end_append trim_end_keep)
        with Nil rw rr ww wr show ?thesis by simp
      next
        case (Cons e es)
        with r2h have e: "\<not> is_ws e" by simp
        have ne: "\<not> (\<forall>y\<in>set (replace_ws r2). is_ws y)"
          using e Cons by auto
        have "trim_end ((w @ [32]) @ replace_ws r2) =
                (w @ [32]) @ trim_end (replace_ws r2)"
          using ne by (simp only: trim_end_append if_False)
        then have "trim_end (replace_ws s) = (w @ [32]) @ trim_end (replace_ws r2)"
          by (simp add: rw rr)
        moreover have "ws_words r2 \<noteq> []" using e Cons by simp
        then obtain v vs where "ws_words r2 = v # vs" by (cases "ws_words r2") auto
        ultimately show ?thesis using IH ww wr by simp
      qed
    qed
  qed
qed

lemma trim_replace_ws: "trim (replace_ws s) = unwords (ws_words s)"
proof -
  have "dropWhile is_ws s = [] \<or> \<not> is_ws (hd (dropWhile is_ws s))"
    by (rule dropWhile_hd_or_nil)
  then show ?thesis
    by (simp add: trim_eq replace_ws_dropWhile trim_end_replace_ws ws_words_dropWhile)
qed

text \<open>
  The words are what their name says: runs without whitespace, none empty, and together
  all the code units of the text that are not whitespace, in order.
\<close>

lemma filter_takeWhile_same: "filter P (takeWhile P xs) = takeWhile P xs"
  by (induction xs) auto

lemma filter_split_run:
  "filter P xs = takeWhile P xs @ filter P (dropWhile P xs)"
proof -
  have "filter P (takeWhile P xs @ dropWhile P xs) =
        filter P (takeWhile P xs) @ filter P (dropWhile P xs)"
    by (rule filter_append)
  then show ?thesis by (simp add: filter_takeWhile_same)
qed

lemma ws_words_concat: "concat (ws_words s) = filter (\<lambda>c. \<not> is_ws c) s"
proof (induction s rule: ws_words.induct)
  case 1
  then show ?case by simp
next
  case (2 c cs)
  show ?case
  proof (cases "is_ws c")
    case True
    with 2 show ?thesis by simp
  next
    case False
    with 2 have "concat (ws_words (dropWhile (\<lambda>x. \<not> is_ws x) cs)) =
        filter (\<lambda>c. \<not> is_ws c) (dropWhile (\<lambda>x. \<not> is_ws x) cs)" by simp
    with False show ?thesis
      using filter_split_run [of "\<lambda>c. \<not> is_ws c" cs] by simp
  qed
qed

lemma ws_words_words: "w \<in> set (ws_words s) \<Longrightarrow> w \<noteq> [] \<and> (\<forall>c\<in>set w. \<not> is_ws c)"
proof (induction s rule: ws_words.induct)
  case 1
  then show ?case by simp
next
  case (2 c cs)
  show ?case
  proof (cases "is_ws c")
    case True
    with 2 show ?thesis by simp
  next
    case False
    with "2.prems" have "w = c # takeWhile (\<lambda>x. \<not> is_ws x) cs \<or>
        w \<in> set (ws_words (dropWhile (\<lambda>x. \<not> is_ws x) cs))" by simp
    then show ?thesis
    proof
      assume w: "w = c # takeWhile (\<lambda>x. \<not> is_ws x) cs"
      have "\<forall>x\<in>set (takeWhile (\<lambda>x. \<not> is_ws x) cs). \<not> is_ws x"
        by (auto dest: set_takeWhileD)
      with w False show ?thesis by simp
    next
      assume "w \<in> set (ws_words (dropWhile (\<lambda>x. \<not> is_ws x) cs))"
      with "2.IH"(2) False show ?thesis by blast
    qed
  qed
qed

lemma capitalize_eq: "toUpperCase U (charAt0 s) @ slice1 s = capitalize U s"
  by (cases s) (simp_all add: toUpperCase_def charAt0_def slice1_def capitalize_def)

lemma formatTranscript_refines: "formatTranscript U t = format_spec U t"
proof (cases "t = []")
  case True
  then show ?thesis by (simp add: formatTranscript_def format_spec_def)
next
  case False
  then show ?thesis
    by (simp add: formatTranscript_def format_spec_def Let_def trim_replace_ws
        capitalize_eq ends_terminal_def capitalize_def)
qed

lemma formatTranscript_empty: "formatTranscript U [] = []"
  by (simp add: formatTranscript_def)

lemma formatTranscript_hello: "formatTranscript U (js ''hello world'') = js ''Hello world.''"
  by (simp add: formatTranscript_def js_def trim_def is_ws_def ends_terminal_def is_terminal_def
      toUpperCase_def to_upper_def charAt0_def slice1_def Let_def)

lemma formatTranscript_punctuated:
  "formatTranscript U (js ''Already punctuated!'') = js ''Already punctuated!''"
  by (simp add: formatTranscript_def js_def trim_def is_ws_def ends_terminal_def is_terminal_def
      toUpperCase_def to_upper_def charAt0_def slice1_def Let_def)

lemma format_spec_spaced: "format_spec U (js ''  hello   world  '') = js ''Hello world.''"
  by (simp add: format_spec_def js_def is_ws_def is_terminal_def capitalize_def to_upper_def
      Let_def)

lemma formatTranscript_nbsp: "formatTranscript U [0xA0] = []"
  by (simp add: text_defs)

lemma formatTranscript_beyond:
  "formatTranscript U (0xE9 # js ''lan  vital'') = U 0xE9 @ js ''lan vital.''"
  by (simp add: text_defs)

text \<open>
  C7. For every string and every case mapping beyond ASCII, \<open>formatTranscript\<close> computes
  what the specification words: whitespace runs collapsed to single spaces and both ends
  trimmed, a period appended exactly when that result is non-empty and has no terminal
  mark, the first code unit replaced by its upper case; the empty text gives the empty
  text; the two examples come out as stated; a no-break space alone gives the empty text,
  and a first letter beyond ASCII is replaced by what the engine's mapping gives for it.
\<close>

theorem formatTranscript_format:
  "formatTranscript U text = format_spec U text \<and>
   formatTranscript U [] = [] \<and>
   formatTranscript U (js ''hello world'') = js ''Hello world.'' \<and>
   formatTranscript U (js ''Already punctuated!'') = js ''Already punctuated!'' \<and>
   formatTranscript U [0xA0] = [] \<and>
   formatTranscript U (0xE9 # js ''lan  vital'') = U 0xE9 @ js ''lan vital.''"
  by (intro conjI formatTranscript_refines formatTranscript_empty formatTranscript_hello
      formatTranscript_punctuated formatTranscript_nbsp formatTranscript_beyond)

theorem formatTranscript_format_witness:
  "formatTranscript upper_sample (js ''  hello   world  '') = js ''Hello world.'' \<and>
   formatTranscript upper_sample (0xE9 # js ''lan  vital'') = 0xC9 # js ''lan vital.''"
  using formatTranscript_format [of upper_sample "js ''  hello   world  ''"]
  by (simp add: format_spec_spaced upper_sample_def)

section \<open>The summary\<close>

lemma lastIndexOf_range: "- 1 \<le> lastIndexOf s c \<and> lastIndexOf s c < int (length s)"
  by (induction s) (auto simp: Let_def)

lemma lastIndexOf_none: "c \<notin> set s \<Longrightarrow> lastIndexOf s c = - 1"
  by (induction s) (auto simp: Let_def)

lemma lastIndexOf_ge: "j < length s \<Longrightarrow> s ! j = c \<Longrightarrow> int j \<le> lastIndexOf s c"
proof (induction s arbitrary: j)
  case Nil
  then show ?case by simp
next
  case (Cons x xs)
  show ?case
  proof (cases j)
    case 0
    with Cons.prems show ?thesis
      using lastIndexOf_range [of xs c] by (auto simp: Let_def)
  next
    case (Suc j')
    with Cons.prems have "int j' \<le> lastIndexOf xs c" by (intro Cons.IH) auto
    with Suc show ?thesis by (auto simp: Let_def)
  qed
qed

lemma lastIndexOf_le:
  "(\<forall>k. j < k \<and> k < length s \<longrightarrow> s ! k \<noteq> c) \<Longrightarrow> lastIndexOf s c \<le> int j"
proof (induction s arbitrary: j)
  case Nil
  then show ?case by simp
next
  case (Cons x xs)
  show ?case
  proof (cases j)
    case 0
    have "c \<notin> set xs"
    proof
      assume "c \<in> set xs"
      then obtain k where "k < length xs" "xs ! k = c" by (auto simp: in_set_conv_nth)
      with Cons.prems 0 show False by (auto dest: spec [of _ "Suc k"])
    qed
    then have "lastIndexOf xs c = - 1" by (rule lastIndexOf_none)
    with 0 show ?thesis by (simp add: Let_def)
  next
    case (Suc j')
    have "\<forall>k. j' < k \<and> k < length xs \<longrightarrow> xs ! k \<noteq> c"
    proof (intro allI impI)
      fix k assume "j' < k \<and> k < length xs"
      with Cons.prems Suc show "xs ! k \<noteq> c" by (auto dest: spec [of _ "Suc k"])
    qed
    then have "lastIndexOf xs c \<le> int j'" by (rule Cons.IH)
    with Suc show ?thesis by (auto simp: Let_def)
  qed
qed

lemma lastSentenceEnd_at:
  assumes j: "j < length s" and t: "is_terminal (s ! j)"
    and after: "\<forall>k. j < k \<and> k < length s \<longrightarrow> \<not> is_terminal (s ! k)"
  shows "lastSentenceEnd s = int j"
proof -
  have le: "lastIndexOf s c \<le> int j" if "is_terminal c" for c
    using after that by (intro lastIndexOf_le) auto
  have "lastIndexOf s (s ! j) = int j"
    using lastIndexOf_ge [OF j refl] le [OF t] by simp
  moreover have "lastIndexOf s 46 \<le> int j" "lastIndexOf s 33 \<le> int j"
    "lastIndexOf s 63 \<le> int j"
    by (rule le, simp add: is_terminal_def)+
  ultimately show ?thesis
    using t by (auto simp: lastSentenceEnd_def is_terminal_def max_def)
qed

lemma lastSentenceEnd_none:
  assumes "\<forall>k < length s. \<not> is_terminal (s ! k)"
  shows "lastSentenceEnd s = - 1"
proof -
  have "c \<notin> set s" if "is_terminal c" for c
    using assms that by (auto simp: in_set_conv_nth)
  then show ?thesis
    by (simp add: lastSentenceEnd_def lastIndexOf_none is_terminal_def)
qed

lemma lastSentenceEnd_range: "- 1 \<le> lastSentenceEnd s \<and> lastSentenceEnd s < int (length s)"
  using lastIndexOf_range [of s 46] lastIndexOf_range [of s 33] lastIndexOf_range [of s 63]
  by (auto simp: lastSentenceEnd_def max_def)

lemma generateSummary_long:
  "maxLength < length txt \<Longrightarrow>
   generateSummary txt maxLength =
     (if gt_times_0_7 (lastSentenceEnd (take maxLength txt)) maxLength
      then take (nat (lastSentenceEnd (take maxLength txt) + 1)) txt
      else take maxLength txt @ js ''...'')"
  using lastSentenceEnd_range [of "take maxLength txt"]
  by (auto simp: generateSummary_def Let_def lastSentenceEnd_def [symmetric] min_def)

lemma generateSummary_short:
  "length txt \<le> maxLength \<Longrightarrow> generateSummary txt maxLength = txt"
  by (simp add: generateSummary_def)

lemma generateSummary_length:
  "maxLength < length txt \<Longrightarrow> length (generateSummary txt maxLength) \<le> maxLength + 3"
  using lastSentenceEnd_range [of "take maxLength txt"]
  by (auto simp: generateSummary_long)


subsection \<open>The rounded product and the exact threshold\<close>

lemma bitlen_pos: "0 < p \<Longrightarrow> bitlen p = Suc (bitlen (p div 2))"
  by (subst bitlen.simps) simp

lemma bitlen_zero: "bitlen 0 = 0"
  by (subst bitlen.simps) simp

lemma bitlen_bounds: "0 < p \<Longrightarrow> 2 ^ (bitlen p - 1) \<le> p \<and> p < 2 ^ bitlen p"
proof (induction p rule: less_induct)
  case (less p)
  show ?case
  proof (cases "p div 2 = 0")
    case True
    with less.prems have "p = 1" by presburger
    then show ?thesis by (simp add: bitlen_pos bitlen_zero)
  next
    case False
    then have pos: "0 < p div 2" by simp
    have "p div 2 < p" using less.prems by simp
    from less.IH [OF this pos]
    have lo: "2 ^ (bitlen (p div 2) - 1) \<le> p div 2" and hi: "p div 2 < 2 ^ bitlen (p div 2)"
      by auto
    obtain b where b: "bitlen (p div 2) = Suc b"
      using bitlen_pos [OF pos] by simp
    have "bitlen p = Suc (Suc b)" using bitlen_pos [OF less.prems] b by simp
    moreover have "2 * 2 ^ b \<le> p" using lo b by simp
    moreover have "p < 2 * (2 * 2 ^ b)" using hi b by simp
    ultimately show ?thesis by simp
  qed
qed


lemma round53_error:
  "2 * \<bar>int (scaled (round53 p)) - int p\<bar> \<le> 2 ^ (bitlen p - 53)"
proof -
  define e where "e = bitlen p - 53"
  define X :: nat where "X = 2 ^ e"
  define q where "q = p div X"
  define r where "r = p mod X"
  define Q where "Q = q * X"
  define up where "up \<longleftrightarrow> 2 * r > X \<or> (2 * r = X \<and> odd q)"
  have X: "0 < X" by (simp add: X_def)
  have "p = Q + r" by (simp add: q_def r_def Q_def)
  then have p: "int p = int Q + int r" by simp
  have r: "r < X" using X by (simp add: r_def)
  have "round53 p = (if up then (q + 1, e) else (q, e))"
    by (simp add: round53_def Let_def e_def X_def q_def r_def up_def)
  then have sc: "scaled (round53 p) = (if up then Q + X else Q)"
    by (simp add: scaled_def X_def Q_def)
  have "2 * \<bar>int (scaled (round53 p)) - int p\<bar> \<le> int X"
  proof (cases up)
    case True
    then have "X \<le> 2 * r" by (auto simp: up_def)
    with True r show ?thesis by (simp add: sc p)
  next
    case False
    then have "2 * r \<le> X" by (auto simp: up_def)
    with False show ?thesis by (simp add: sc p)
  qed
  then show ?thesis by (simp add: X_def e_def)
qed

lemma round53_exp:
  "bitlen p - 53 = 0 \<or> 2 ^ (bitlen p - 53) * 2 ^ 52 \<le> p"
proof (cases "bitlen p \<le> 53")
  case True
  then show ?thesis by simp
next
  case False
  then obtain k where k: "bitlen p = 53 + k"
    by (intro that [of "bitlen p - 53"]) simp
  have "0 < p" using False bitlen_zero by (cases "p = 0") auto
  then have "2 ^ (bitlen p - 1) \<le> p" using bitlen_bounds by blast
  moreover have "bitlen p - 1 = k + 52" using k by simp
  ultimately have "2 ^ (k + 52) \<le> p" by (simp only:)
  then have "2 ^ k * 2 ^ 52 \<le> p" by (simp only: power_add)
  moreover have "bitlen p - 53 = k" using k by simp
  ultimately show ?thesis by (simp only: simp_thms)
qed

lemma gt_times_0_7_scaled:
  "gt_times_0_7 i n \<longleftrightarrow> i * 2 ^ 53 > int (scaled (times_0_7 n))"
  by (simp add: gt_times_0_7_def scaled_def split: prod.splits)

lemma times_0_7_near:
  assumes n: "n < 2 ^ 49"
  shows "10 * int (scaled (times_0_7 n)) + 4 * int n < 63050394783186940 * int n + 9007199254740992"
    and "63050394783186940 * int n + 4 * int n < 10 * int (scaled (times_0_7 n)) + 9007199254740992"
proof -
  define p where "p = n * 6305039478318694"
  define X :: int where "X = 2 ^ (bitlen p - 53)"
  define S where "S = int (scaled (times_0_7 n))"
  define P where "P = int n * 6305039478318694"
  define E where "E = S - P"
  have P: "int p = P" by (simp add: p_def P_def)
  have "2 * \<bar>S - P\<bar> \<le> X"
    using round53_error [of p] unfolding P by (simp add: times_0_7_def p_def X_def S_def)
  then have err: "2 * \<bar>E\<bar> \<le> X" by (simp only: E_def)
  have n': "int n < 562949953421312" using n by simp
  have "bitlen p - 53 = 0 \<or> int (2 ^ (bitlen p - 53) * 2 ^ 52) \<le> int p"
    using round53_exp [of p] by (simp only: of_nat_le_iff)
  then have "X = 1 \<or> X * 4503599627370496 \<le> P"
    unfolding P by (auto simp: X_def)
  then have "10 * \<bar>E\<bar> + 4 * int n < 9007199254740992"
  proof
    assume "X = 1"
    with err n' show ?thesis by linarith
  next
    assume "X * 4503599627370496 \<le> P"
    then have "X * 4503599627370496 \<le> int n * 6305039478318694" by (simp only: P_def)
    with err n' show ?thesis by linarith
  qed
  then have "10 * E + 4 * int n < 9007199254740992" "- 10 * E + 4 * int n < 9007199254740992"
    by linarith+
  moreover have "S = E + int n * 6305039478318694" by (simp add: E_def P_def)
  ultimately have "10 * S + 4 * int n < 63050394783186940 * int n + 9007199254740992"
    and "63050394783186940 * int n + 4 * int n < 10 * S + 9007199254740992"
    by linarith+
  then show "10 * int (scaled (times_0_7 n)) + 4 * int n < 63050394783186940 * int n + 9007199254740992"
    and "63050394783186940 * int n + 4 * int n < 10 * int (scaled (times_0_7 n)) + 9007199254740992"
    by (simp_all only: S_def)
qed

lemma gt_times_0_7_past:
  assumes "n < 2 ^ 49" "10 * i > 7 * int n"
  shows "gt_times_0_7 i n"
proof -
  define S where "S = int (scaled (times_0_7 n))"
  have "10 * S + 4 * int n < 63050394783186940 * int n + 9007199254740992"
    using times_0_7_near(1) [OF assms(1)] by (simp only: S_def)
  moreover from assms(2) have "7 * int n + 1 \<le> 10 * i" by linarith
  then have "9007199254740992 * (7 * int n + 1) \<le> 9007199254740992 * (10 * i)"
    by (rule mult_left_mono) simp
  then have "63050394783186944 * int n + 9007199254740992 \<le> 90071992547409920 * i"
    by (simp add: algebra_simps)
  moreover have "0 \<le> int n" by simp
  ultimately have "i * 9007199254740992 > S" by linarith
  then show ?thesis by (simp add: gt_times_0_7_scaled S_def)
qed

lemma gt_times_0_7_before:
  assumes "n < 2 ^ 49" "10 * i < 7 * int n"
  shows "\<not> gt_times_0_7 i n"
proof -
  define S where "S = int (scaled (times_0_7 n))"
  have "63050394783186940 * int n + 4 * int n < 10 * S + 9007199254740992"
    using times_0_7_near(2) [OF assms(1)] by (simp only: S_def)
  moreover from assms(2) have "10 * i + 1 \<le> 7 * int n" by linarith
  then have "9007199254740992 * (10 * i + 1) \<le> 9007199254740992 * (7 * int n)"
    by (rule mult_left_mono) simp
  then have "90071992547409920 * i + 9007199254740992 \<le> 63050394783186944 * int n"
    by (simp add: algebra_simps)
  moreover have "0 \<le> int n" by simp
  ultimately have "i * 9007199254740992 \<le> S" by linarith
  then show ?thesis by (simp add: gt_times_0_7_scaled S_def)
qed

lemma gt_times_0_7_63_90: "gt_times_0_7 63 90"
  by (simp add: gt_times_0_7_def times_0_7_def round53_def Let_def bitlen.simps)


lemma generateSummary_at:
  assumes N: "N < length txt" and j: "j < N" and t: "is_terminal (txt ! j)"
    and after: "\<forall>k. j < k \<and> k < N \<longrightarrow> \<not> is_terminal (txt ! k)"
  shows "generateSummary txt N =
           (if gt_times_0_7 (int j) N then take (Suc j) txt else take N txt @ js ''...'')"
proof -
  have len: "length (take N txt) = N" using N by simp
  have "lastSentenceEnd (take N txt) = int j"
  proof (rule lastSentenceEnd_at)
    show "j < length (take N txt)" using j len by simp
    show "is_terminal (take N txt ! j)" using j t by simp
    show "\<forall>k. j < k \<and> k < length (take N txt) \<longrightarrow> \<not> is_terminal (take N txt ! k)"
      using after len by simp
  qed
  moreover have "nat (int j + 1) = Suc j" by simp
  ultimately show ?thesis using N by (simp add: generateSummary_long)
qed

lemma generateSummary_no_mark:
  assumes N: "N < length txt" and none: "\<forall>k<N. \<not> is_terminal (txt ! k)"
  shows "generateSummary txt N = take N txt @ js ''...''"
proof -
  have "lastSentenceEnd (take N txt) = - 1"
    by (rule lastSentenceEnd_none) (use N none in simp)
  moreover have "\<not> gt_times_0_7 (- 1) N"
    using of_nat_0_le_iff [of "scaled (times_0_7 N)", where ?'a = int]
    by (simp add: gt_times_0_7_scaled)
  ultimately show ?thesis using N by (simp add: generateSummary_long)
qed

text \<open>
  C6, amended. \<open>generateSummary\<close> returns the text unchanged when it is no longer than
  \<open>N\<close>; otherwise the result has at most \<open>N + 3\<close> code units. With \<open>j\<close> the index of the
  rightmost terminal mark of the prefix of length \<open>N\<close>, the result is the prefix cut right
  after that mark when \<open>j\<close> exceeds the double-precision product \<^verbatim>\<open>N * 0.7\<close>, and the
  prefix followed by three dots otherwise (also when the prefix has no terminal mark). For
  \<open>N\<close> below \<open>2^49\<close> the rounded product decides as the exact one does whenever \<open>j\<close> is not
  exactly seven tenths of \<open>N\<close>.
\<close>

theorem generateSummary_threshold:
  "(length txt \<le> N \<longrightarrow> generateSummary txt N = txt) \<and>
   (N < length txt \<longrightarrow> length (generateSummary txt N) \<le> N + 3) \<and>
   (N < length txt \<and> j < N \<and> is_terminal (txt ! j) \<and>
    (\<forall>k. j < k \<and> k < N \<longrightarrow> \<not> is_terminal (txt ! k)) \<longrightarrow>
      generateSummary txt N =
        (if gt_times_0_7 (int j) N then take (Suc j) txt else take N txt @ js ''...'') \<and>
      (N < 2 ^ 49 \<and> 7 * int N < 10 * int j \<longrightarrow> generateSummary txt N = take (Suc j) txt) \<and>
      (N < 2 ^ 49 \<and> 10 * int j < 7 * int N \<longrightarrow> generateSummary txt N = take N txt @ js ''...'')) \<and>
   (N < length txt \<and> (\<forall>k<N. \<not> is_terminal (txt ! k)) \<longrightarrow>
      generateSummary txt N = take N txt @ js ''...'')"
proof (intro conjI impI)
  assume "length txt \<le> N"
  then show "generateSummary txt N = txt" by (rule generateSummary_short)
next
  assume "N < length txt"
  then show "length (generateSummary txt N) \<le> N + 3" by (rule generateSummary_length)
next
  assume a: "N < length txt \<and> j < N \<and> is_terminal (txt ! j) \<and>
    (\<forall>k. j < k \<and> k < N \<longrightarrow> \<not> is_terminal (txt ! k))"
  then show eq: "generateSummary txt N =
        (if gt_times_0_7 (int j) N then take (Suc j) txt else take N txt @ js ''...'')"
    by (intro generateSummary_at) auto
  {
    assume "N < 2 ^ 49 \<and> 7 * int N < 10 * int j"
    then have "gt_times_0_7 (int j) N" by (intro gt_times_0_7_past) auto
    with eq show "generateSummary txt N = take (Suc j) txt" by simp
  }
  {
    assume "N < 2 ^ 49 \<and> 10 * int j < 7 * int N"
    then have "\<not> gt_times_0_7 (int j) N" by (intro gt_times_0_7_before) auto
    with eq show "generateSummary txt N = take N txt @ js ''...''" by simp
  }
next
  assume "N < length txt \<and> (\<forall>k<N. \<not> is_terminal (txt ! k))"
  then show "generateSummary txt N = take N txt @ js ''...''"
    by (intro generateSummary_no_mark) auto
qed

lemma between_upt: "(\<forall>k. j < k \<and> k < N \<longrightarrow> P k) \<longleftrightarrow> (\<forall>k\<in>set [Suc j..<N]. P k)"
  by auto

lemma gt_times_0_7_11_15: "gt_times_0_7 11 15"
  by (simp add: gt_times_0_7_def times_0_7_def round53_def Let_def bitlen.simps)

lemma gt_times_0_7_2_15: "\<not> gt_times_0_7 2 15"
  by (simp add: gt_times_0_7_def times_0_7_def round53_def Let_def bitlen.simps)

theorem generateSummary_threshold_witness:
  "generateSummary (js ''Hello there. This is a test of things'') 15 = js ''Hello there.'' \<and>
   generateSummary (js ''Hi. This is a test of things'') 15 = js ''Hi. This is a t...'' \<and>
   generateSummary (js ''Short.'') 15 = js ''Short.''"
proof -
  have 1: "generateSummary (js ''Hello there. This is a test of things'') 15 = js ''Hello there.''"
    using generateSummary_threshold [of "js ''Hello there. This is a test of things''" 15 11]
    by (simp add: js_def is_terminal_def between_upt upt_rec_numeral gt_times_0_7_11_15)
  have 2: "generateSummary (js ''Hi. This is a test of things'') 15 = js ''Hi. This is a t...''"
    using generateSummary_threshold [of "js ''Hi. This is a test of things''" 15 2]
    by (simp add: js_def is_terminal_def between_upt upt_rec_numeral gt_times_0_7_2_15)
  have 3: "generateSummary (js ''Short.'') 15 = js ''Short.''"
    using generateSummary_threshold [of "js ''Short.''" 15 0] by simp
  from 1 2 3 show ?thesis by simp
qed

subsection \<open>The tie\<close>

lemma tie_text_nth:
  "k < 104 \<Longrightarrow> tie_text ! k = (if k < 63 then 97 else if k = 63 then 46 else 98)"
  by (auto simp: tie_text_def nth_append nth_Cons')

lemma tie_text_length: "length tie_text = 104"
  by (simp add: tie_text_def)

lemma tie_text_last: "lastSentenceEnd (take 90 tie_text) = 63"
proof -
  have "lastSentenceEnd (take 90 tie_text) = int 63"
    by (rule lastSentenceEnd_at) (auto simp: tie_text_length tie_text_nth is_terminal_def)
  then show ?thesis by simp
qed

text \<open>
  C6, as stated, fails at a tie. With \<open>N = 90\<close> the rightmost terminal mark of the prefix
  of \<open>tie_text\<close> is at index 63, which is not past \<open>0.7 * 90 = 63\<close>; yet \<^verbatim>\<open>90 * 0.7\<close> is the
  double \<open>62.99999999999999\<close>, so the prefix is cut after the mark and no dots are appended.
\<close>

theorem generateSummary_tie_counterexample:
  "length tie_text = 104 \<and>
   lastSentenceEnd (take 90 tie_text) = 63 \<and>
   \<not> 7 * (90::int) < 10 * 63 \<and>
   generateSummary tie_text 90 = take 64 tie_text \<and>
   generateSummary tie_text 90 \<noteq> take 90 tie_text @ js ''...''"
proof -
  have g: "generateSummary tie_text 90 = take 64 tie_text"
    by (simp add: generateSummary_long tie_text_length tie_text_last gt_times_0_7_63_90)
  have "length (take 64 tie_text) \<noteq> length (take 90 tie_text @ js ''...'')"
    by (simp add: tie_text_length)
  then have "take 64 tie_text \<noteq> take 90 tie_text @ js ''...''" by metis
  with g show ?thesis by (simp add: tie_text_length tie_text_last)
qed


section \<open>The transcription engine\<close>

lemma sr_run_outer_pending:
  "\<forall>ev\<in>set evs. ev \<noteq> RecEnd \<and> (\<forall>code. ev \<noteq> RecError code) \<Longrightarrow>
   outer (foldl sr_step s evs) = outer s"
proof (induction evs arbitrary: s)
  case Nil
  then show ?case by simp
next
  case (Cons ev evs)
  then have "outer (sr_step s ev) = outer s" by (cases ev) auto
  with Cons show ?case by simp
qed







text \<open>
  Whatever the events, the promise of \<open>transcribeAudio\<close> is pending, resolved, or rejected
  with a recognizer error: no handler rejects it with the message of the audio element.
\<close>

lemma sr_step_outer:
  "outer (sr_step s ev) = outer s \<or>
   (\<exists>t. outer (sr_step s ev) = Resolved t) \<or>
   (\<exists>code. outer (sr_step s ev) = Rejected (''Speech recognition error: '' @ code))"
  by (cases ev) (auto simp: resolve_def reject_def split: promise.splits)

lemma sr_run_outer_cases:
  "outer (foldl sr_step s evs) = outer s \<or>
   (\<exists>t. outer (foldl sr_step s evs) = Resolved t) \<or>
   (\<exists>code. outer (foldl sr_step s evs) = Rejected (''Speech recognition error: '' @ code))"
proof (induction evs rule: rev_induct)
  case Nil
  then show ?case by simp
next
  case (snoc ev evs)
  from sr_step_outer [of "foldl sr_step s evs" ev] snoc show ?case by auto
qed

lemma sr_run_never_media_error:
  "outer (sr_run evs) \<noteq> Rejected ''Failed to load audio file''"
  using sr_run_outer_cases [of sr_init evs] by (auto simp: sr_run_def sr_init_def)

lemma transcribeAudio_never_media_error:
  "fst (transcribeAudio env f w) \<noteq> Rejected ''Failed to load audio file''"
  by (simp add: transcribeAudio_def isSupported_def Let_def sr_run_never_media_error)

lemma sr_run_rec_error:
  "outer (sr_run [AudioLoadedData, RecError ''no-speech'', RecEnd]) =
     Rejected ''Speech recognition error: no-speech''"
  by (simp add: sr_run_def sr_init_def reject_def resolve_def)

lemma sr_run_media_error:
  "outer (sr_run [AudioError]) = Pending \<and>
   inner (sr_run [AudioError]) = Rejected ''Failed to load audio file''"
  by (simp add: sr_run_def sr_init_def reject_def)


section \<open>The upload\<close>

lemma transcribe_frame:
  "blobs (snd (transcribe env f u w)) = blobs w \<and>
   rows (snd (transcribe env f u w)) = rows w \<and>
   (\<exists>cs. calls (snd (transcribe env f u w)) = calls w @ cs \<and>
         set cs \<subseteq> {CallTranscribeAudio, CallExternalService})"
  by (auto simp: transcribe_def transcribeAudio_def transcribeWithExternalService_def
      isSupported_def Let_def split: promise.splits)

lemma transcription_step_frame:
  assumes "transcription_step env fl en ft w = (res, w')"
  shows "blobs w' = blobs w" and "rows w' = rows w"
    and "\<exists>cs. calls w' = calls w @ cs \<and> set cs \<subseteq> {CallTranscribeAudio, CallExternalService}"
proof -
  obtain p w2 where t: "transcribe env fl False w = (p, w2)" by fastforce
  from transcribe_frame [of env fl False w] t
  have f: "blobs w2 = blobs w" "rows w2 = rows w"
    "\<exists>cs. calls w2 = calls w @ cs \<and> set cs \<subseteq> {CallTranscribeAudio, CallExternalService}"
    by simp_all
  have "w' = w \<or> w' = w2"
    using assms t by (auto simp: transcription_step_def Let_def split: if_splits promise.splits)
  then show "blobs w' = blobs w" and "rows w' = rows w"
    and "\<exists>cs. calls w' = calls w @ cs \<and> set cs \<subseteq> {CallTranscribeAudio, CallExternalService}"
    using f by auto
qed

lemma transcription_step_vars:
  assumes "transcription_step env fl en ft w = (Some v, w')"
  shows "(t_status v = ''pending'' \<and> t_transcript v = None \<and> \<not> (en \<and> ft = Some ''audio'')) \<or>
         (t_status v = ''failed'' \<and> t_transcript v = None \<and>
            (\<exists>e. fst (transcribe env fl False w) = Rejected e)) \<or>
         (t_status v = ''completed'' \<and>
            (\<exists>raw. fst (transcribe env fl False w) = Resolved raw \<and>
                   t_transcript v = Some (formatTranscript (upper_beyond env) raw)))"
proof -
  obtain p w2 where t: "transcribe env fl False w = (p, w2)" by fastforce
  show ?thesis
    using assms t by (auto simp: transcription_step_def Let_def split: if_splits promise.splits)
qed

lemma storage_upload_cases:
  "storage_upload env key fl w = (r, w') \<Longrightarrow>
     rows w' = rows w \<and> calls w' = calls w @ [StorageUpload key] \<and> queries w' = queries w \<and>
     (case r of Some msg \<Rightarrow> blobs w' = blobs w
      | None \<Rightarrow> blobs w key = None \<and> blobs w' = (blobs w)(key \<mapsto> fl))"
  by (auto simp: storage_upload_def Let_def split: option.splits if_splits)

lemma uploadFile_invalid:
  "\<not> valid (validateFile fl) \<Longrightarrow>
   uploadFile env fl lid prim en w = (Some (failure (v_error (validateFile fl))), w)"
  by (simp add: uploadFile_def)

lemma uploadFile_upload_failed:
  assumes "valid (validateFile fl)"
    and "storage_upload env (upload_path env fl lid) fl w = (Some msg, w1)"
  shows "uploadFile env fl lid prim en w = (Some (failure (Some msg)), w1)"
  using assms by (simp add: uploadFile_def upload_path_def)

lemma uploadFile_uploaded:
  assumes "valid (validateFile fl)"
    and "storage_upload env (upload_path env fl lid) fl w = (None, w1)"
  shows "uploadFile env fl lid prim en w =
     (case duration_step env fl (getFileType (f_type fl)) of
        None \<Rightarrow> (None, w1)
      | Some dur \<Rightarrow>
          (case transcription_step env fl en (getFileType (f_type fl)) w1 of
             (None, w2) \<Rightarrow> (None, w2)
           | (Some v, w2) \<Rightarrow>
               (case db_insert env (upload_row env fl lid prim dur v) w2 of
                  (Inl msg, w3) \<Rightarrow>
                    (Some (failure (Some msg)), snd (storage_remove env (upload_path env fl lid) w3))
                | (Inr fid, w3) \<Rightarrow>
                    (Some \<lparr>success = True, filePath = Some (upload_path env fl lid),
                           error = None, fileId = Some fid\<rparr>, w3))))"
  using assms
  by (simp add: uploadFile_def upload_path_def upload_row_def Let_def
      split: option.splits prod.splits sum.splits)


text \<open>Every run of \<open>uploadFile\<close> is of one of six kinds.\<close>

lemma uploadFile_outcome:
  fixes env fl lid prim en w
  defines "path \<equiv> upload_path env fl lid"
    and "ft \<equiv> getFileType (f_type fl)"
  obtains
    (invalid) "\<not> valid (validateFile fl)"
      "uploadFile env fl lid prim en w = (Some (failure (v_error (validateFile fl))), w)"
  | (upload_failed) msg w1 where "valid (validateFile fl)"
      "storage_upload env path fl w = (Some msg, w1)"
      "uploadFile env fl lid prim en w = (Some (failure (Some msg)), w1)"
  | (probe_pending) w1 where "valid (validateFile fl)"
      "storage_upload env path fl w = (None, w1)"
      "duration_step env fl ft = None"
      "uploadFile env fl lid prim en w = (None, w1)"
  | (transcribe_pending) w1 dur w2 where "valid (validateFile fl)"
      "storage_upload env path fl w = (None, w1)"
      "duration_step env fl ft = Some dur"
      "transcription_step env fl en ft w1 = (None, w2)"
      "uploadFile env fl lid prim en w = (None, w2)"
  | (insert_failed) w1 dur v w2 msg where "valid (validateFile fl)"
      "storage_upload env path fl w = (None, w1)"
      "duration_step env fl ft = Some dur"
      "transcription_step env fl en ft w1 = (Some v, w2)"
      "insert_reply env = Inl msg"
      "uploadFile env fl lid prim en w =
         (Some (failure (Some msg)),
          snd (storage_remove env path
                 (w2\<lparr>calls := calls w2 @ [DbInsert (upload_row env fl lid prim dur v)]\<rparr>)))"
  | (inserted) w1 dur v w2 fid where "valid (validateFile fl)"
      "storage_upload env path fl w = (None, w1)"
      "duration_step env fl ft = Some dur"
      "transcription_step env fl en ft w1 = (Some v, w2)"
      "insert_reply env = Inr fid"
      "uploadFile env fl lid prim en w =
         (Some \<lparr>success = True, filePath = Some path, error = None, fileId = Some fid\<rparr>,
          w2\<lparr>calls := calls w2 @ [DbInsert (upload_row env fl lid prim dur v)],
             rows := rows w2 @ [(fid, upload_row env fl lid prim dur v)]\<rparr>)"
proof (cases "valid (validateFile fl)")
  case False
  then show ?thesis by (intro invalid) (simp_all add: uploadFile_invalid)
next
  case v: True
  obtain up w1 where up: "storage_upload env path fl w = (up, w1)" by fastforce
  show ?thesis
  proof (cases up)
    case (Some msg)
    with v up show ?thesis
      by (intro upload_failed [of msg w1]) (simp_all add: uploadFile_upload_failed path_def)
  next
    case None
    note unfolded = uploadFile_uploaded [OF v up [unfolded None path_def], of prim en]
    show ?thesis
    proof (cases "duration_step env fl ft")
      case dn: None
      with v up None unfolded show ?thesis
        by (intro probe_pending [of w1]) (simp_all add: ft_def)
    next
      case (Some dur)
      obtain tv w2 where ts: "transcription_step env fl en ft w1 = (tv, w2)" by fastforce
      show ?thesis
      proof (cases tv)
        case tn: None
        with v up None Some ts unfolded show ?thesis
          by (intro transcribe_pending [of w1 dur w2]) (simp_all add: ft_def)
      next
        case (Some tvv)
        note tS = this
        show ?thesis
        proof (cases "insert_reply env")
          case (Inl msg)
          with v up None \<open>duration_step env fl ft = Some dur\<close> ts tS unfolded show ?thesis
            by (intro insert_failed [of w1 dur tvv w2 msg])
              (simp_all add: ft_def db_insert_def path_def Let_def)
        next
          case (Inr fid)
          with v up None \<open>duration_step env fl ft = Some dur\<close> ts tS unfolded show ?thesis
            by (intro inserted [of w1 dur tvv w2 fid])
              (simp_all add: ft_def db_insert_def path_def Let_def)
        qed
      qed
    qed
  qed
qed


lemma new_calls_append [simp]: "calls w' = calls w @ cs \<Longrightarrow> new_calls w w' = cs"
  by (simp add: new_calls_def)

lemma new_rows_append [simp]: "rows w' = rows w @ rs \<Longrightarrow> new_rows w w' = rs"
  by (simp add: new_rows_def)

lemma new_calls_same [simp]: "new_calls w w = []"
  by (simp add: new_calls_def)

lemma new_rows_same [simp]: "rows w' = rows w \<Longrightarrow> new_rows w w' = []"
  by (simp add: new_rows_def)

text \<open>The calls of a run, in order, and the rows it adds.\<close>

lemma uploadFile_trace:
  fixes env fl lid prim en w
  defines "path \<equiv> upload_path env fl lid"
    and "w' \<equiv> snd (uploadFile env fl lid prim en w)"
  shows "(new_calls w w' = [] \<and> new_rows w w' = []) \<or>
     (\<exists>tc. set tc \<subseteq> {CallTranscribeAudio, CallExternalService} \<and>
        new_calls w w' = StorageUpload path # tc \<and> new_rows w w' = []) \<or>
     (\<exists>tc dur v w1 w2. set tc \<subseteq> {CallTranscribeAudio, CallExternalService} \<and>
        storage_upload env path fl w = (None, w1) \<and>
        transcription_step env fl en (getFileType (f_type fl)) w1 = (Some v, w2) \<and>
        ((\<exists>msg. insert_reply env = Inl msg) \<and>
         new_calls w w' =
           StorageUpload path # tc @
             [DbInsert (upload_row env fl lid prim dur v), StorageRemove path] \<and>
         new_rows w w' = []
         \<or>
         (\<exists>fid. insert_reply env = Inr fid \<and>
            new_calls w w' = StorageUpload path # tc @ [DbInsert (upload_row env fl lid prim dur v)] \<and>
            new_rows w w' = [(fid, upload_row env fl lid prim dur v)])))"
proof (cases rule: uploadFile_outcome [where env = env and fl = fl and lid = lid
      and prim = prim and en = en and w = w])
  case invalid
  then show ?thesis by (simp add: w'_def)
next
  case (upload_failed msg w1)
  from storage_upload_cases [OF upload_failed(2)]
  have "calls w1 = calls w @ [StorageUpload path]" "rows w1 = rows w" by (simp_all add: path_def)
  then have "new_calls w w1 = StorageUpload path # [] \<and> new_rows w w1 = []" by simp
  with upload_failed(3) show ?thesis
    by (intro disjI2 disjI1 exI [of _ "[]"]) (simp add: w'_def)
next
  case (probe_pending w1)
  from storage_upload_cases [OF probe_pending(2)]
  have "calls w1 = calls w @ [StorageUpload path]" "rows w1 = rows w" by (simp_all add: path_def)
  then have "new_calls w w1 = StorageUpload path # [] \<and> new_rows w w1 = []" by simp
  with probe_pending(4) show ?thesis
    by (intro disjI2 disjI1 exI [of _ "[]"]) (simp add: w'_def)
next
  case (transcribe_pending w1 dur w2)
  from storage_upload_cases [OF transcribe_pending(2)]
  have 1: "calls w1 = calls w @ [StorageUpload path]" "rows w1 = rows w"
    by (simp_all add: path_def)
  from transcription_step_frame [OF transcribe_pending(4)] obtain tc where
    2: "rows w2 = rows w1" "calls w2 = calls w1 @ tc"
      "set tc \<subseteq> {CallTranscribeAudio, CallExternalService}" by auto
  from 1 2 have "new_calls w w2 = StorageUpload path # tc \<and> new_rows w w2 = []" by simp
  with transcribe_pending(5) 2(3) show ?thesis
    by (intro disjI2 disjI1 exI [of _ tc]) (simp add: w'_def)
next
  case (insert_failed w1 dur v w2 msg)
  from storage_upload_cases [OF insert_failed(2)]
  have 1: "calls w1 = calls w @ [StorageUpload path]" "rows w1 = rows w"
    by (simp_all add: path_def)
  from transcription_step_frame [OF insert_failed(4)] obtain tc where
    2: "rows w2 = rows w1" "calls w2 = calls w1 @ tc"
      "set tc \<subseteq> {CallTranscribeAudio, CallExternalService}" by auto
  have 3: "calls w' = calls w @ (StorageUpload path # tc @
             [DbInsert (upload_row env fl lid prim dur v), StorageRemove path])"
    "rows w' = rows w"
    using 1 2 insert_failed(6)
    by (auto simp: w'_def storage_remove_def path_def Let_def split: option.splits)
  have "new_calls w w' =
           StorageUpload path # tc @
             [DbInsert (upload_row env fl lid prim dur v), StorageRemove path] \<and>
         new_rows w w' = []"
    using 3 by simp
  with insert_failed(2,4,5) 2(3) show ?thesis
    unfolding path_def [symmetric] by (intro disjI2) blast
next
  case (inserted w1 dur v w2 fid)
  from storage_upload_cases [OF inserted(2)]
  have 1: "calls w1 = calls w @ [StorageUpload path]" "rows w1 = rows w"
    by (simp_all add: path_def)
  from transcription_step_frame [OF inserted(4)] obtain tc where
    2: "rows w2 = rows w1" "calls w2 = calls w1 @ tc"
      "set tc \<subseteq> {CallTranscribeAudio, CallExternalService}" by auto
  have 3: "calls w' = calls w @ (StorageUpload path # tc @
             [DbInsert (upload_row env fl lid prim dur v)])"
    "rows w' = rows w @ [(fid, upload_row env fl lid prim dur v)]"
    using 1 2 inserted(6) by (auto simp: w'_def)
  have "new_calls w w' = StorageUpload path # tc @ [DbInsert (upload_row env fl lid prim dur v)] \<and>
         new_rows w w' = [(fid, upload_row env fl lid prim dur v)]"
    using 3 by simp
  with inserted(2,4,5) 2(3) show ?thesis
    unfolding path_def [symmetric] by (intro disjI2) blast
qed


subsection \<open>When a run returns\<close>

lemma duration_step_settles:
  "duration_step env fl ft \<noteq> None \<longleftrightarrow>
     (ft = Some ''audio'' \<or> ft = Some ''video'' \<longrightarrow> getMediaDuration env fl \<noteq> Pending)"
  by (auto simp: duration_step_def split: promise.splits)

lemma transcription_step_settles:
  "fst (transcription_step env fl en ft w) \<noteq> None \<longleftrightarrow>
     (en \<and> ft = Some ''audio'' \<longrightarrow> fst (transcribe env fl False w) \<noteq> Pending)"
  by (auto simp: transcription_step_def Let_def split: promise.splits prod.splits)

text \<open>
  Once the file is valid and written, the run returns exactly when the two awaited steps
  settle.
\<close>

lemma uploadFile_returns_iff:
  assumes "valid (validateFile fl)"
    and "fst (storage_upload env (upload_path env fl lid) fl w) = None"
  shows "fst (uploadFile env fl lid prim en w) \<noteq> None \<longleftrightarrow>
     duration_step env fl (getFileType (f_type fl)) \<noteq> None \<and>
     fst (transcription_step env fl en (getFileType (f_type fl))
            (snd (storage_upload env (upload_path env fl lid) fl w))) \<noteq> None"
proof (cases rule: uploadFile_outcome [where env = env and fl = fl and lid = lid
      and prim = prim and en = en and w = w])
  case invalid
  with assms show ?thesis by simp
next
  case (upload_failed msg w1)
  with assms show ?thesis by simp
next
  case (probe_pending w1)
  then show ?thesis by simp
next
  case (transcribe_pending w1 dur w2)
  then show ?thesis by simp
next
  case (insert_failed w1 dur v w2 msg)
  then show ?thesis by simp
next
  case (inserted w1 dur v w2 fid)
  then show ?thesis by simp
qed

subsection \<open>Sample runs, evaluated\<close>

lemma path_L1:
  "now env = 1730000000000 \<Longrightarrow>
   upload_path env lecture_webm ''L1'' = ''lectures/L1/1730000000000_lecture.webm''"
  by (simp add: upload_path_def generateFilePath_def sanitize_def keeps_def char_of_def
      bit_Suc_0_iff lecture_webm_def js_def)

lemma valid_lecture_webm: "valid (validateFile lecture_webm)"
  by (simp add: validateFile_def getFileType_def ALLOWED_TYPES_def MAX_FILE_SIZE_def
      lecture_webm_def)

lemma kind_lecture_webm: "getFileType (f_type lecture_webm) = Some ''audio''"
  by (simp add: getFileType_def ALLOWED_TYPES_def lecture_webm_def)

lemma invalid_big_webm:
  "\<not> valid (validateFile big_webm) \<and>
   v_error (validateFile big_webm) = Some ''File size must be less than 100MB''"
  by (simp add: validateFile_def MAX_FILE_SIZE_def big_webm_def)


lemmas sample_envs =
  env_ok_def env_silent_def env_rec_error_def env_media_error_def env_unsupported_def
  env_upload_fails_def env_insert_fails_def env_insert_remove_fail_def

lemmas run_defs =
  uploadFile_def storage_upload_def storage_remove_def db_insert_def duration_step_def
  getMediaDuration_def transcription_step_def transcribe_def transcribeAudio_def
  transcribeWithExternalService_def isSupported_def sr_run_def sr_init_def final_text_def
  resolve_def reject_def failure_def Let_def

lemma run_ok:
  "fst (uploadFile env_ok lecture_webm ''L1'' True True world0) =
     Some \<lparr>success = True, filePath = Some ''lectures/L1/1730000000000_lecture.webm'',
           error = None, fileId = Some ''id-1''\<rparr> \<and>
   map (\<lambda>(i, r). (i, transcript_status r, transcript r))
     (rows (snd (uploadFile env_ok lecture_webm ''L1'' True True world0))) =
     [(''id-1'', ''completed'', Some (js ''Hello world again.''))]"
  using valid_lecture_webm kind_lecture_webm path_L1 [of env_ok]
  by (simp add: run_defs sample_envs world0_def upload_path_def text_defs)


subsection \<open>Aborting before anything is persisted\<close>

text \<open>
  C8. An upload that fails validation returns a failure with the validation message and
  leaves the world as it was: no call to the blob store or to the database. An upload
  whose blob write fails returns a failure with the store's message; its only call is the
  write, and no row is created.
\<close>

theorem uploadFile_aborts_early:
  "(\<not> valid (validateFile fl) \<longrightarrow>
      fst (uploadFile env fl lid prim en w) =
        Some \<lparr>success = False, filePath = None, error = v_error (validateFile fl), fileId = None\<rparr> \<and>
      (\<exists>msg. v_error (validateFile fl) = Some msg) \<and>
      snd (uploadFile env fl lid prim en w) = w \<and>
      new_calls w (snd (uploadFile env fl lid prim en w)) = []) \<and>
   (valid (validateFile fl) \<and>
    fst (storage_upload env (upload_path env fl lid) fl w) = Some msg \<longrightarrow>
      fst (uploadFile env fl lid prim en w) =
        Some \<lparr>success = False, filePath = None, error = Some msg, fileId = None\<rparr> \<and>
      new_calls w (snd (uploadFile env fl lid prim en w)) =
        [StorageUpload (upload_path env fl lid)] \<and>
      rows (snd (uploadFile env fl lid prim en w)) = rows w \<and>
      blobs (snd (uploadFile env fl lid prim en w)) = blobs w)"
proof (intro conjI impI)
  assume a: "\<not> valid (validateFile fl)"
  then show "fst (uploadFile env fl lid prim en w) =
        Some \<lparr>success = False, filePath = None, error = v_error (validateFile fl), fileId = None\<rparr>"
    and "snd (uploadFile env fl lid prim en w) = w"
    and "new_calls w (snd (uploadFile env fl lid prim en w)) = []"
    by (simp_all add: uploadFile_invalid failure_def)
  from a show "\<exists>msg. v_error (validateFile fl) = Some msg"
    by (auto simp: validateFile_def split: option.splits if_splits)
next
  assume a: "valid (validateFile fl) \<and>
    fst (storage_upload env (upload_path env fl lid) fl w) = Some msg"
  obtain w1 where up: "storage_upload env (upload_path env fl lid) fl w = (Some msg, w1)"
    using a by (cases "storage_upload env (upload_path env fl lid) fl w") auto
  from a up have u: "uploadFile env fl lid prim en w = (Some (failure (Some msg)), w1)"
    by (intro uploadFile_upload_failed) auto
  from storage_upload_cases [OF up]
  have f: "rows w1 = rows w" "calls w1 = calls w @ [StorageUpload (upload_path env fl lid)]"
    "blobs w1 = blobs w" by simp_all
  show "fst (uploadFile env fl lid prim en w) =
        Some \<lparr>success = False, filePath = None, error = Some msg, fileId = None\<rparr>"
    by (simp add: u failure_def)
  show "new_calls w (snd (uploadFile env fl lid prim en w)) =
        [StorageUpload (upload_path env fl lid)]"
    using f by (simp add: u)
  show "rows (snd (uploadFile env fl lid prim en w)) = rows w"
    and "blobs (snd (uploadFile env fl lid prim en w)) = blobs w"
    using f by (simp_all add: u)
qed

theorem uploadFile_aborts_early_witness:
  "fst (uploadFile env_ok big_webm ''L1'' True True world0) =
     Some \<lparr>success = False, filePath = None,
           error = Some ''File size must be less than 100MB'', fileId = None\<rparr> \<and>
   calls (snd (uploadFile env_ok big_webm ''L1'' True True world0)) = [] \<and>
   fst (uploadFile env_upload_fails lecture_webm ''L1'' True True world0) =
     Some \<lparr>success = False, filePath = None, error = Some ''Bucket not found'', fileId = None\<rparr> \<and>
   calls (snd (uploadFile env_upload_fails lecture_webm ''L1'' True True world0)) =
     [StorageUpload ''lectures/L1/1730000000000_lecture.webm''] \<and>
   rows (snd (uploadFile env_upload_fails lecture_webm ''L1'' True True world0)) = []"
  using uploadFile_aborts_early [of big_webm env_ok "''L1''" True True world0]
        uploadFile_aborts_early [of lecture_webm env_upload_fails "''L1''" True True world0
          "''Bucket not found''"]
        invalid_big_webm valid_lecture_webm path_L1 [of env_upload_fails]
  by (simp add: new_calls_def world0_def storage_upload_def sample_envs Let_def)

subsection \<open>A failed insert\<close>

text \<open>
  C3, amended. When the file is valid, the blob write succeeds, the duration probe and
  the transcription settle (or are skipped) and the insert is answered with an error, then
  \<open>uploadFile\<close> returns, and its result is a failure carrying the insert's message whatever
  the delete answers; the calls end with the insert and then the delete of the generated
  key; no row is added; and the store does not hold the generated key when the delete
  succeeds, and still holds the uploaded file when the delete fails.
\<close>

theorem uploadFile_insert_failure:
  "valid (validateFile fl) \<and>
   fst (storage_upload env (upload_path env fl lid) fl w) = None \<and>
   duration_step env fl (getFileType (f_type fl)) \<noteq> None \<and>
   fst (transcription_step env fl en (getFileType (f_type fl))
          (snd (storage_upload env (upload_path env fl lid) fl w))) \<noteq> None \<and>
   insert_reply env = Inl msg \<longrightarrow>
     fst (uploadFile env fl lid prim en w) =
       Some \<lparr>success = False, filePath = None, error = Some msg, fileId = None\<rparr> \<and>
     (\<exists>tc r. set tc \<subseteq> {CallTranscribeAudio, CallExternalService} \<and>
        file_path r = upload_path env fl lid \<and>
        new_calls w (snd (uploadFile env fl lid prim en w)) =
          StorageUpload (upload_path env fl lid) # tc @
            [DbInsert r, StorageRemove (upload_path env fl lid)]) \<and>
     rows (snd (uploadFile env fl lid prim en w)) = rows w \<and>
     (remove_reply env = None \<longrightarrow>
        blobs (snd (uploadFile env fl lid prim en w)) (upload_path env fl lid) = None) \<and>
     (remove_reply env \<noteq> None \<longrightarrow>
        blobs (snd (uploadFile env fl lid prim en w)) (upload_path env fl lid) = Some fl)"
proof (intro impI)
  let ?path = "upload_path env fl lid"
  let ?R = "uploadFile env fl lid prim en w"
  assume "valid (validateFile fl) \<and>
   fst (storage_upload env ?path fl w) = None \<and>
   duration_step env fl (getFileType (f_type fl)) \<noteq> None \<and>
   fst (transcription_step env fl en (getFileType (f_type fl))
          (snd (storage_upload env ?path fl w))) \<noteq> None \<and>
   insert_reply env = Inl msg"
  then have a: "valid (validateFile fl)" "fst (storage_upload env ?path fl w) = None"
    "insert_reply env = Inl msg"
    "duration_step env fl (getFileType (f_type fl)) \<noteq> None"
    "fst (transcription_step env fl en (getFileType (f_type fl))
          (snd (storage_upload env ?path fl w))) \<noteq> None"
    by simp_all
  show "fst ?R = Some \<lparr>success = False, filePath = None, error = Some msg, fileId = None\<rparr> \<and>
     (\<exists>tc r. set tc \<subseteq> {CallTranscribeAudio, CallExternalService} \<and>
        file_path r = ?path \<and>
        new_calls w (snd ?R) = StorageUpload ?path # tc @ [DbInsert r, StorageRemove ?path]) \<and>
     rows (snd ?R) = rows w \<and>
     (remove_reply env = None \<longrightarrow> blobs (snd ?R) ?path = None) \<and>
     (remove_reply env \<noteq> None \<longrightarrow> blobs (snd ?R) ?path = Some fl)"
  proof (cases rule: uploadFile_outcome [where env = env and fl = fl and lid = lid
      and prim = prim and en = en and w = w])
    case invalid
    with a show ?thesis by simp
  next
    case (upload_failed msg' w1)
    with a show ?thesis by simp
  next
    case (probe_pending w1)
    with a show ?thesis by simp
  next
    case (transcribe_pending w1 dur w2)
    with a show ?thesis by simp
  next
    case (inserted w1 dur v w2 fid)
    with a show ?thesis by simp
  next
    case (insert_failed w1 dur v w2 msg')
    with a have msg: "msg' = msg" by simp
    from storage_upload_cases [OF insert_failed(2)]
    have 1: "calls w1 = calls w @ [StorageUpload ?path]" "rows w1 = rows w"
      "blobs w1 = (blobs w)(?path \<mapsto> fl)"
      by simp_all
    from transcription_step_frame [OF insert_failed(4)] obtain tc where
      2: "rows w2 = rows w1" "calls w2 = calls w1 @ tc" "blobs w2 = blobs w1"
        "set tc \<subseteq> {CallTranscribeAudio, CallExternalService}" by auto
    define r where "r = upload_row env fl lid prim dur v"
    have R: "?R = (Some (failure (Some msg)),
          snd (storage_remove env ?path (w2\<lparr>calls := calls w2 @ [DbInsert r]\<rparr>)))"
      using insert_failed(6) by (simp add: r_def msg)
    have c: "calls (snd ?R) =
        calls w @ (StorageUpload ?path # tc @ [DbInsert r, StorageRemove ?path])"
      using 1 2 by (simp add: R storage_remove_def Let_def split: option.splits)
    have "fst ?R = Some \<lparr>success = False, filePath = None, error = Some msg, fileId = None\<rparr>"
      by (simp add: R failure_def)
    moreover have "\<exists>tc r. set tc \<subseteq> {CallTranscribeAudio, CallExternalService} \<and>
        file_path r = ?path \<and>
        new_calls w (snd ?R) = StorageUpload ?path # tc @ [DbInsert r, StorageRemove ?path]"
      using c 2(4) by (intro exI [of _ tc] exI [of _ r]) (simp add: r_def upload_row_def)
    moreover have "rows (snd ?R) = rows w"
      using 1 2 by (simp add: R storage_remove_def Let_def split: option.splits)
    moreover have "remove_reply env = None \<longrightarrow> blobs (snd ?R) ?path = None"
      by (simp add: R storage_remove_def Let_def)
    moreover have "remove_reply env \<noteq> None \<longrightarrow> blobs (snd ?R) ?path = Some fl"
      using 1 2 by (auto simp: R storage_remove_def Let_def)
    ultimately show ?thesis by blast
  qed
qed


lemma valid_slides_pdf:
  "valid (validateFile slides_pdf) \<and> getFileType (f_type slides_pdf) = Some ''pdf''"
  by (simp add: validateFile_def getFileType_def ALLOWED_TYPES_def MAX_FILE_SIZE_def
      slides_pdf_def)

lemma path_slides:
  "now env = 1730000000000 \<Longrightarrow>
   upload_path env slides_pdf ''L1'' = ''lectures/L1/1730000000000_slides.pdf''"
  by (simp add: upload_path_def generateFilePath_def sanitize_def keeps_def char_of_def
      bit_Suc_0_iff slides_pdf_def js_def)

theorem uploadFile_insert_failure_witness:
  "fst (uploadFile env_insert_fails lecture_webm ''L1'' True True world0) =
     Some \<lparr>success = False, filePath = None,
           error = Some ''new row violates row-level security policy'', fileId = None\<rparr> \<and>
   rows (snd (uploadFile env_insert_fails lecture_webm ''L1'' True True world0)) = [] \<and>
   blobs (snd (uploadFile env_insert_fails lecture_webm ''L1'' True True world0))
     ''lectures/L1/1730000000000_lecture.webm'' = None"
  using uploadFile_insert_failure [where fl = lecture_webm and env = env_insert_fails
          and lid = "''L1''" and w = world0 and prim = True and en = True
          and msg = "''new row violates row-level security policy''"]
        valid_lecture_webm kind_lecture_webm path_L1 [of env_insert_fails]
  by (simp add: run_defs sample_envs world0_def upload_path_def text_defs)

text \<open>
  C3, as stated, fails when the compensating delete fails too: the failure result is the
  same, no row exists, the delete was called, and the blob is still in the store under the
  generated key.
\<close>

theorem uploadFile_orphan_counterexample:
  "fst (uploadFile env_insert_remove_fail lecture_webm ''L1'' True True world0) =
     Some \<lparr>success = False, filePath = None,
           error = Some ''new row violates row-level security policy'', fileId = None\<rparr> \<and>
   rows (snd (uploadFile env_insert_remove_fail lecture_webm ''L1'' True True world0)) = [] \<and>
   last (calls (snd (uploadFile env_insert_remove_fail lecture_webm ''L1'' True True world0))) =
     StorageRemove ''lectures/L1/1730000000000_lecture.webm'' \<and>
   blobs (snd (uploadFile env_insert_remove_fail lecture_webm ''L1'' True True world0))
     ''lectures/L1/1730000000000_lecture.webm'' = Some lecture_webm"
  using valid_lecture_webm kind_lecture_webm path_L1 [of env_insert_remove_fail]
  by (simp add: run_defs sample_envs world0_def upload_path_def text_defs)

subsection \<open>The transcript fields of a persisted row\<close>

lemma ws_words_Nil_iff: "ws_words s = [] \<longleftrightarrow> (\<forall>c\<in>set s. is_ws c)"
  by (induction s rule: ws_words.induct) auto

lemma ws_words_hd: "ws_words s = x # xs \<Longrightarrow> x \<noteq> []"
  by (induction s rule: ws_words.induct) (auto split: if_splits)

lemma unwords_Nil_iff: "unwords ws = [] \<longleftrightarrow> ws = [] \<or> ws = [[]]"
  by (induction ws rule: unwords.induct) auto

lemma capitalize_nonempty:
  "t \<noteq> [] \<Longrightarrow> capitalize U (if is_terminal (last t) then t else t @ [46]) \<noteq> []"
  by (cases t) (auto simp: capitalize_def to_upper_def is_terminal_def split: if_splits)

lemma formatTranscript_nonempty_iff:
  "formatTranscript U raw \<noteq> [] \<longleftrightarrow> (\<exists>c\<in>set raw. \<not> is_ws c)"
proof -
  have "unwords (ws_words raw) = [] \<longleftrightarrow> ws_words raw = []"
    using ws_words_hd [of raw "[]" "[]"] by (auto simp: unwords_Nil_iff)
  then have "format_spec U raw = [] \<longleftrightarrow> ws_words raw = []"
    using capitalize_nonempty [of "unwords (ws_words raw)" U]
    by (auto simp: format_spec_def Let_def)
  then show ?thesis
    by (simp add: formatTranscript_refines ws_words_Nil_iff)
qed

lemma uploadFile_new_row:
  assumes "(i, r) \<in> set (new_rows w (snd (uploadFile env fl lid prim en w)))"
  shows "\<exists>dur v w1 w2. storage_upload env (upload_path env fl lid) fl w = (None, w1) \<and>
           transcription_step env fl en (getFileType (f_type fl)) w1 = (Some v, w2) \<and>
           r = upload_row env fl lid prim dur v"
  using uploadFile_trace [of w env fl lid prim en] assms by auto

lemma uploadFile_new_insert:
  assumes "DbInsert r \<in> set (new_calls w (snd (uploadFile env fl lid prim en w)))"
  shows "\<exists>dur v w1 w2. storage_upload env (upload_path env fl lid) fl w = (None, w1) \<and>
           transcription_step env fl en (getFileType (f_type fl)) w1 = (Some v, w2) \<and>
           r = upload_row env fl lid prim dur v"
  using uploadFile_trace [of w env fl lid prim en] assms by auto


text \<open>
  C1, amended. A row persisted by \<open>uploadFile\<close> with status \<^verbatim>\<open>completed\<close> has a transcript
  that is not null: it is the formatted text of the transcription, which is non-empty
  exactly when the transcribed text has a code unit that is not whitespace.
\<close>

theorem uploadFile_completed_transcript:
  "(i, r) \<in> set (new_rows w (snd (uploadFile env fl lid prim en w))) \<and>
   transcript_status r = ''completed'' \<longrightarrow>
     (\<exists>raw. fst (transcribe env fl False
                   (snd (storage_upload env (upload_path env fl lid) fl w))) = Resolved raw \<and>
            transcript r = Some (formatTranscript (upper_beyond env) raw) \<and>
            (formatTranscript (upper_beyond env) raw \<noteq> [] \<longleftrightarrow> (\<exists>c\<in>set raw. \<not> is_ws c)))"
proof
  assume a: "(i, r) \<in> set (new_rows w (snd (uploadFile env fl lid prim en w))) \<and>
   transcript_status r = ''completed''"
  then obtain dur v w1 w2 where
    up: "storage_upload env (upload_path env fl lid) fl w = (None, w1)" and
    ts: "transcription_step env fl en (getFileType (f_type fl)) w1 = (Some v, w2)" and
    r: "r = upload_row env fl lid prim dur v"
    using uploadFile_new_row by blast
  from a r have "t_status v = ''completed''" by (simp add: upload_row_def)
  with transcription_step_vars [OF ts] obtain raw where
    "fst (transcribe env fl False w1) = Resolved raw" "t_transcript v = Some (formatTranscript (upper_beyond env) raw)"
    by auto
  with up r show "\<exists>raw. fst (transcribe env fl False
                   (snd (storage_upload env (upload_path env fl lid) fl w))) = Resolved raw \<and>
            transcript r = Some (formatTranscript (upper_beyond env) raw) \<and>
            (formatTranscript (upper_beyond env) raw \<noteq> [] \<longleftrightarrow> (\<exists>c\<in>set raw. \<not> is_ws c))"
    by (intro exI [of _ raw]) (simp add: upload_row_def formatTranscript_nonempty_iff)
qed

theorem uploadFile_completed_transcript_witness:
  "map (\<lambda>(i, r). (i, transcript_status r, transcript r))
     (new_rows world0 (snd (uploadFile env_ok lecture_webm ''L1'' True True world0))) =
     [(''id-1'', ''completed'', Some (js ''Hello world again.''))]"
  using uploadFile_completed_transcript [of "''id-1''"
          "snd (hd (rows (snd (uploadFile env_ok lecture_webm ''L1'' True True world0))))"
          world0 env_ok lecture_webm "''L1''" True True]
        run_ok
  by (simp add: new_rows_def world0_def)

text \<open>
  C1, as stated, fails on a silent recording: the recognizer ends with no result, the
  transcript is the empty string, and the row is persisted as completed.
\<close>

theorem uploadFile_empty_transcript_counterexample:
  "map (\<lambda>(i, r). (i, transcript_status r, transcript r))
     (rows (snd (uploadFile env_silent lecture_webm ''L1'' True True world0))) =
     [(''id-1'', ''completed'', Some [])]"
  using valid_lecture_webm kind_lecture_webm path_L1 [of env_silent]
  by (simp add: run_defs sample_envs world0_def upload_path_def text_defs)

subsection \<open>The status values\<close>

lemma transcription_step_status:
  "transcription_step env fl en ft w = (Some v, w') \<Longrightarrow>
   t_status v \<in> {''pending'', ''completed'', ''failed''}"
  using transcription_step_vars [of env fl en ft w v w'] by auto

text \<open>
  C10. The status an upload sends to the database, and the status of a row it adds, is
  one of \<^verbatim>\<open>pending\<close>, \<^verbatim>\<open>completed\<close>, \<^verbatim>\<open>failed\<close>, never \<^verbatim>\<open>processing\<close>; a run makes at most
  one insert and adds at most one row.
\<close>

theorem uploadFile_status_values:
  "(\<forall>r. DbInsert r \<in> set (new_calls w (snd (uploadFile env fl lid prim en w))) \<longrightarrow>
        transcript_status r \<in> {''pending'', ''completed'', ''failed''} \<and>
        transcript_status r \<noteq> ''processing'') \<and>
   (\<forall>i r. (i, r) \<in> set (new_rows w (snd (uploadFile env fl lid prim en w))) \<longrightarrow>
        transcript_status r \<in> {''pending'', ''completed'', ''failed''} \<and>
        transcript_status r \<noteq> ''processing'') \<and>
   length (filter is_insert (new_calls w (snd (uploadFile env fl lid prim en w)))) \<le> 1 \<and>
   length (new_rows w (snd (uploadFile env fl lid prim en w))) \<le> 1"
proof (intro conjI allI impI)
  fix r
  assume "DbInsert r \<in> set (new_calls w (snd (uploadFile env fl lid prim en w)))"
  from uploadFile_new_insert [OF this] obtain dur v w1 w2 where
    "transcription_step env fl en (getFileType (f_type fl)) w1 = (Some v, w2)"
    "r = upload_row env fl lid prim dur v" by blast
  then have s: "transcript_status r \<in> {''pending'', ''completed'', ''failed''}"
    using transcription_step_status by (simp add: upload_row_def)
  then show "transcript_status r \<in> {''pending'', ''completed'', ''failed''}" .
  from s show "transcript_status r \<noteq> ''processing''" by auto
next
  fix i r
  assume "(i, r) \<in> set (new_rows w (snd (uploadFile env fl lid prim en w)))"
  from uploadFile_new_row [OF this] obtain dur v w1 w2 where
    "transcription_step env fl en (getFileType (f_type fl)) w1 = (Some v, w2)"
    "r = upload_row env fl lid prim dur v" by blast
  then have s: "transcript_status r \<in> {''pending'', ''completed'', ''failed''}"
    using transcription_step_status by (simp add: upload_row_def)
  then show "transcript_status r \<in> {''pending'', ''completed'', ''failed''}" .
  from s show "transcript_status r \<noteq> ''processing''" by auto
next
  have nt: "filter is_insert tc = []" if "set tc \<subseteq> {CallTranscribeAudio, CallExternalService}"
    for tc using that by (induction tc) auto
  show "length (filter is_insert (new_calls w (snd (uploadFile env fl lid prim en w)))) \<le> 1"
    using uploadFile_trace [of w env fl lid prim en] by (auto simp: nt)
  show "length (new_rows w (snd (uploadFile env fl lid prim en w))) \<le> 1"
    using uploadFile_trace [of w env fl lid prim en] by auto
qed

theorem uploadFile_status_values_witness:
  "map (\<lambda>(i, r). transcript_status r)
     (rows (snd (uploadFile env_ok lecture_webm ''L1'' True True world0))) = [''completed''] \<and>
   map (\<lambda>(i, r). transcript_status r)
     (rows (snd (uploadFile env_ok slides_pdf ''L1'' False True world0))) = [''pending''] \<and>
   map (\<lambda>(i, r). transcript_status r)
     (rows (snd (uploadFile env_failed lecture_webm ''L1'' True True world0))) = [''failed'']"
proof -
  have 1: "map (\<lambda>(i, r). transcript_status r)
     (rows (snd (uploadFile env_ok lecture_webm ''L1'' True True world0))) = [''completed'']"
    using uploadFile_status_values [of world0 env_ok lecture_webm "''L1''" True True]
      valid_lecture_webm kind_lecture_webm path_L1 [of env_ok]
    by (simp add: run_defs sample_envs world0_def upload_path_def text_defs)
  have 2: "map (\<lambda>(i, r). transcript_status r)
     (rows (snd (uploadFile env_ok slides_pdf ''L1'' False True world0))) = [''pending'']"
    using valid_slides_pdf path_slides [of env_ok]
    by (simp add: run_defs sample_envs world0_def upload_path_def)
  have 3: "map (\<lambda>(i, r). transcript_status r)
     (rows (snd (uploadFile env_failed lecture_webm ''L1'' True True world0))) = [''failed'']"
    using valid_lecture_webm kind_lecture_webm path_L1 [of env_failed]
    by (simp add: run_defs sample_envs env_failed_def world0_def upload_path_def)
  from 1 2 3 show ?thesis by simp
qed

subsection \<open>An audio element that fails to load\<close>

text \<open>
  C5, at the failing input. When the audio element reports an error, only the promise of
  \<^verbatim>\<open>playAudioForRecognition\<close> is rejected (with \<^verbatim>\<open>Failed to load audio file\<close>); the
  promise \<open>transcribeAudio\<close> returns stays pending, so do \<open>transcribe\<close> and the upload that
  awaits it, and for no events at all is that promise rejected with the audio element's
  message. A recognizer error does reject it, with the error code in the message.
\<close>

theorem transcribeAudio_media_error_pending:
  "fst (transcribeAudio env_media_error lecture_webm world0) = Pending \<and>
   inner (sr_run (sr_events env_media_error)) = Rejected ''Failed to load audio file'' \<and>
   fst (transcribe env_media_error lecture_webm False world0) = Pending \<and>
   fst (uploadFile env_media_error lecture_webm ''L1'' True True world0) = None \<and>
   fst (transcribeAudio env f w) \<noteq> Rejected ''Failed to load audio file'' \<and>
   fst (transcribeAudio env_rec_error lecture_webm world0) =
     Rejected ''Speech recognition error: no-speech''"
proof -
  have "fst (uploadFile env_media_error lecture_webm ''L1'' True True world0) = None"
    using valid_lecture_webm kind_lecture_webm path_L1 [of env_media_error]
    by (simp add: run_defs sample_envs world0_def upload_path_def)
  then show ?thesis
    by (simp add: transcribe_def transcribeAudio_def isSupported_def env_media_error_def
      env_rec_error_def env_ok_def world0_def sr_run_media_error sr_run_rec_error Let_def
      sr_run_never_media_error)
qed

end
